theory Spec2Isabelle
  imports Main
begin

section \<open>Python strings and the standard-library functions the code calls\<close>

text \<open>
  A Python \<^verbatim>\<open>str\<close> is a sequence of Unicode code points and \<^verbatim>\<open>len\<close> counts code
  points, so a string is modelled as a list of code points (\<open>nat\<close>), not as a list of
  bytes. \<open>py\<close> turns an ASCII literal into such a list.
\<close>

type_synonym ustr = "nat list"

definition py :: "string \<Rightarrow> ustr" where
  "py s = map of_char s"

definition DOT :: nat where "DOT = 46"
definition HYPHEN :: nat where "HYPHEN = 45"
definition UNDERSCORE :: nat where "UNDERSCORE = 95"

text \<open>
  \<^verbatim>\<open>unicodedata.normalize('NFKC', _)\<close> and \<^verbatim>\<open>str.lower\<close> belong to the Python runtime, not
  to the repository: their tables are not in the source. They are parameters of the
  model. \<open>unicode_ok\<close> records the two facts about them that the proofs use: on text made
  of ASCII and of the code points U+00DF .. U+00FF (the keys of the transliteration table
  lie there) NFKC changes nothing and \<^verbatim>\<open>lower\<close> maps \<^verbatim>\<open>A-Z\<close> to \<^verbatim>\<open>a-z\<close> and nothing else.
  \<open>basic_unicode\<close> is the instance used to run the model on such text.
\<close>

record unicode_lib =
  nfkc :: "ustr \<Rightarrow> ustr"
  lower :: "ustr \<Rightarrow> ustr"

definition ascii_lower :: "nat \<Rightarrow> nat" where
  "ascii_lower c = (if 65 \<le> c \<and> c \<le> 90 then c + 32 else c)"

definition plain :: "nat \<Rightarrow> bool" where
  "plain c = (c < 128 \<or> (223 \<le> c \<and> c \<le> 255))"

definition unicode_ok :: "unicode_lib \<Rightarrow> bool" where
  "unicode_ok U = (\<forall>s. list_all plain s \<longrightarrow> nfkc U s = s \<and> lower U s = map ascii_lower s)"

definition basic_unicode :: unicode_lib where
  "basic_unicode = \<lparr> nfkc = (\<lambda>s. s), lower = map ascii_lower \<rparr>"

subsection \<open>String operations of the runtime that are small enough to write out\<close>

text \<open>\<^verbatim>\<open>s.rstrip(chars)\<close>, \<^verbatim>\<open>s.lstrip(chars)\<close> and \<^verbatim>\<open>sep.join(parts)\<close>.\<close>

definition rstrip :: "ustr \<Rightarrow> ustr \<Rightarrow> ustr" where
  "rstrip chars s = rev (dropWhile (\<lambda>c. c \<in> set chars) (rev s))"

definition lstrip :: "ustr \<Rightarrow> ustr \<Rightarrow> ustr" where
  "lstrip chars s = dropWhile (\<lambda>c. c \<in> set chars) s"

fun join :: "ustr \<Rightarrow> ustr list \<Rightarrow> ustr" where
  "join sep [] = []"
| "join sep [x] = x"
| "join sep (x # y # ys) = x @ sep @ join sep (y # ys)"

text \<open>
  \<^verbatim>\<open>s[:k]\<close>: a negative \<open>k\<close> counts from the end of the string, and a bound outside the
  string is clipped.
\<close>

definition slice_to :: "ustr \<Rightarrow> int \<Rightarrow> ustr" where
  "slice_to s k = (if k < 0 then take (nat (int (length s) + k)) s else take (nat k) s)"

text \<open>
  \<^verbatim>\<open>s.rsplit(sep, maxsplit)\<close> for a one-character separator: \<open>rsplit1\<close> cuts at the last
  occurrence of \<open>sep\<close>, \<open>rsplit\<close> repeats it at most \<open>maxsplit\<close> times from the right.
\<close>

fun rsplit1 :: "nat \<Rightarrow> ustr \<Rightarrow> (ustr \<times> ustr) option" where
  "rsplit1 sep [] = None"
| "rsplit1 sep (c # cs) =
     (case rsplit1 sep cs of
        Some (a, b) \<Rightarrow> Some (c # a, b)
      | None \<Rightarrow> if c = sep then Some ([], cs) else None)"

fun rsplit :: "nat \<Rightarrow> nat \<Rightarrow> ustr \<Rightarrow> ustr list" where
  "rsplit sep 0 s = [s]"
| "rsplit sep (Suc n) s =
     (case rsplit1 sep s of
        None \<Rightarrow> [s]
      | Some (a, b) \<Rightarrow> rsplit sep n a @ [b])"

text \<open>\<^verbatim>\<open>sub in s\<close> for strings: \<open>sub\<close> occurs in \<open>s\<close> as a contiguous block.\<close>

fun starts_with :: "ustr \<Rightarrow> ustr \<Rightarrow> bool" where
  "starts_with [] s = True"
| "starts_with (p # ps) [] = False"
| "starts_with (p # ps) (c # cs) = (p = c \<and> starts_with ps cs)"

fun contains :: "ustr \<Rightarrow> ustr \<Rightarrow> bool" where
  "contains sub [] = (sub = [])"
| "contains sub (c # cs) = (starts_with sub (c # cs) \<or> contains sub cs)"

section \<open>core/sanitizer.py\<close>

definition SYSTEM_FILES :: "ustr list" where
  "SYSTEM_FILES =
     [py ''.DS_Store'', py ''Thumbs.db'', py ''desktop.ini'', py ''.localized'',
      py ''thumbs.db'', py ''Desktop.ini'', py ''$RECYCLE.BIN'',
      py ''System Volume Information'']"

definition RESERVED_NAMES :: "ustr list" where
  "RESERVED_NAMES =
     [py ''con'', py ''prn'', py ''aux'', py ''nul'',
      py ''com1'', py ''com2'', py ''com3'', py ''com4'', py ''com5'', py ''com6'',
      py ''com7'', py ''com8'', py ''com9'',
      py ''lpt1'', py ''lpt2'', py ''lpt3'', py ''lpt4'', py ''lpt5'', py ''lpt6'',
      py ''lpt7'', py ''lpt8'', py ''lpt9'']"

text \<open>
  \<open>TRANSLITERATION_MAP\<close>, keyed by code point: U+00E0 .. U+00FF without U+00F0, U+00F7
  and U+00FE, and U+00DF.
\<close>

definition TRANSLITERATION_MAP :: "(nat \<times> ustr) list" where
  "TRANSLITERATION_MAP =
     [(224, py ''a''), (225, py ''a''), (226, py ''a''), (227, py ''a''), (228, py ''a''),
      (229, py ''a''), (230, py ''ae''),
      (231, py ''c''), (232, py ''e''), (233, py ''e''), (234, py ''e''), (235, py ''e''),
      (236, py ''i''), (237, py ''i''), (238, py ''i''), (239, py ''i''),
      (241, py ''n''), (242, py ''o''), (243, py ''o''), (244, py ''o''), (245, py ''o''),
      (246, py ''o''), (248, py ''o''),
      (249, py ''u''), (250, py ''u''), (251, py ''u''), (252, py ''u''),
      (253, py ''y''), (255, py ''y''), (223, py ''ss'')]"

definition MAX_FILENAME_LENGTH :: int where
  "MAX_FILENAME_LENGTH = 180"

definition ALNUM :: ustr where
  "ALNUM = py ''abcdefghijklmnopqrstuvwxyz0123456789''"

definition SEPS :: ustr where
  "SEPS = py ''-_''"

text \<open>The whitespace literal of \<open>sanitize_base_name\<close>: space, tab, newline, carriage return.\<close>

definition WHITESPACE :: ustr where
  "WHITESPACE = [32, 9, 10, 13]"

definition is_system_file :: "ustr \<Rightarrow> bool" where
  "is_system_file filename = (filename \<in> set SYSTEM_FILES)"

definition normalize_unicode :: "unicode_lib \<Rightarrow> ustr \<Rightarrow> ustr" where
  "normalize_unicode U text = nfkc U text"

text \<open>\<^verbatim>\<open>str.translate\<close>: every code point with an entry is replaced by the entry's string.\<close>

definition transliterate :: "ustr \<Rightarrow> ustr" where
  "transliterate text =
     concat (map (\<lambda>c. case map_of TRANSLITERATION_MAP c of Some r \<Rightarrow> r | None \<Rightarrow> [c]) text)"

definition split_filename :: "ustr \<Rightarrow> ustr \<times> ustr" where
  "split_filename filename =
     (let parts = rsplit DOT 2 filename in
      if length parts = 3 \<and> parts ! 1 \<in> set [py ''tar'', py ''backup''] then
        (parts ! 0, [DOT] @ parts ! 1 @ [DOT] @ parts ! 2)
      else if length parts \<ge> 2 then
        (join [DOT] (butlast parts), [DOT] @ last parts)
      else
        (filename, []))"

text \<open>
  The character loop of \<open>sanitize_base_name\<close>: the arguments are the characters still to
  read, \<open>result\<close> and \<open>prev_sep\<close>. A character of no class is dropped and leaves
  \<open>prev_sep\<close> as it is.
\<close>

fun base_loop :: "ustr \<Rightarrow> ustr \<Rightarrow> bool \<Rightarrow> ustr" where
  "base_loop [] result prev_sep = result"
| "base_loop (c # cs) result prev_sep =
     (if c \<in> set ALNUM then base_loop cs (result @ [c]) False
      else if c \<in> set SEPS then
        (if \<not> prev_sep \<and> result \<noteq> [] then base_loop cs (result @ [HYPHEN]) True
         else base_loop cs result prev_sep)
      else if c \<in> set WHITESPACE then
        (if \<not> prev_sep \<and> result \<noteq> [] then base_loop cs (result @ [HYPHEN]) True
         else base_loop cs result prev_sep)
      else base_loop cs result prev_sep)"

text \<open>The character class \<^verbatim>\<open>[a-z0-9]\<close> of the regular expressions.\<close>

definition az09 :: "nat \<Rightarrow> bool" where
  "az09 c = ((97 \<le> c \<and> c \<le> 122) \<or> (48 \<le> c \<and> c \<le> 57))"

text \<open>
  \<^verbatim>\<open>re.sub(r'[-_]+', '-', s)\<close>: every maximal run of separators becomes one hyphen. The
  flag says that the previous character was part of the current run.
\<close>

fun collapse_seps :: "bool \<Rightarrow> ustr \<Rightarrow> ustr" where
  "collapse_seps in_run [] = []"
| "collapse_seps in_run (c # cs) =
     (if c = HYPHEN \<or> c = UNDERSCORE then
        (if in_run then collapse_seps True cs else HYPHEN # collapse_seps True cs)
      else c # collapse_seps False cs)"

definition sanitize_base_name :: "unicode_lib \<Rightarrow> ustr \<Rightarrow> ustr" where
  "sanitize_base_name U name =
     (let name1 = lower U (normalize_unicode U name);
          name2 = transliterate name1;
          result = base_loop name2 [] False;
          sanitized1 = rstrip SEPS result;
          sanitized2 = dropWhile (\<lambda>c. \<not> az09 c) sanitized1;
          sanitized3 = collapse_seps False sanitized2
      in if sanitized3 = [] then py ''file'' else sanitized3)"

definition sanitize_extension :: "unicode_lib \<Rightarrow> ustr \<Rightarrow> ustr" where
  "sanitize_extension U ext =
     (if ext = [] then []
      else
        let ext1 = lstrip [DOT] ext;
            ext2 = lower U ext1;
            ext3 = filter (\<lambda>c. c \<in> set ALNUM) ext2
        in if ext3 \<noteq> [] then DOT # ext3 else [])"

definition check_reserved_name :: "unicode_lib \<Rightarrow> ustr \<Rightarrow> ustr" where
  "check_reserved_name U base_name =
     (if lower U base_name \<in> set RESERVED_NAMES then py ''file_'' @ base_name
      else base_name)"

definition truncate_if_needed :: "ustr \<Rightarrow> ustr \<Rightarrow> ustr" where
  "truncate_if_needed base_name extension =
     (let max_base_len = MAX_FILENAME_LENGTH - int (length extension) in
      if int (length base_name) > max_base_len then
        rstrip SEPS (slice_to base_name max_base_len)
      else base_name)"

definition sanitize :: "unicode_lib \<Rightarrow> ustr \<Rightarrow> ustr" where
  "sanitize U filename =
     (let (base, ext) = split_filename filename;
          safe_base = sanitize_base_name U base;
          safe_ext = sanitize_extension U ext;
          safe_base1 = check_reserved_name U safe_base;
          safe_base2 = truncate_if_needed safe_base1 safe_ext
      in safe_base2 @ safe_ext)"


subsection \<open>\<open>is_safe_filename\<close> and its regular expressions\<close>

text \<open>
  \<^verbatim>\<open>re.match(P + '$', s)\<close>, for a pattern \<open>P\<close> given by its full-match predicate: \<^verbatim>\<open>$\<close>
  matches at the end of the subject and also just before a newline that is the last
  character of the subject.
\<close>

definition match_dollar :: "(ustr \<Rightarrow> bool) \<Rightarrow> ustr \<Rightarrow> bool" where
  "match_dollar full s = (full s \<or> (s \<noteq> [] \<and> last s = 10 \<and> full (butlast s)))"

text \<open>\<^verbatim>\<open>\.[a-z0-9]+(\.[a-z0-9]+)?\<close> against the whole of \<open>t\<close>.\<close>

definition ext_pattern :: "ustr \<Rightarrow> bool" where
  "ext_pattern t =
     (case t of
        [] \<Rightarrow> False
      | c # r \<Rightarrow>
          c = DOT \<and> takeWhile az09 r \<noteq> [] \<and>
          (case dropWhile az09 r of
             [] \<Rightarrow> True
           | d # r2 \<Rightarrow> d = DOT \<and> r2 \<noteq> [] \<and> list_all az09 r2))"

text \<open>\<^verbatim>\<open>[a-z0-9][a-z0-9_-]*[a-z0-9]\<close> and \<^verbatim>\<open>[a-z0-9]\<close> against the whole of \<open>t\<close>.\<close>

definition base_pattern_long :: "ustr \<Rightarrow> bool" where
  "base_pattern_long t =
     (length t \<ge> 2 \<and> az09 (hd t) \<and>
      list_all (\<lambda>c. az09 c \<or> c = UNDERSCORE \<or> c = HYPHEN) (butlast (tl t)) \<and>
      az09 (last t))"

definition base_pattern_single :: "ustr \<Rightarrow> bool" where
  "base_pattern_single t = (length t = 1 \<and> az09 (hd t))"

definition is_safe_filename :: "unicode_lib \<Rightarrow> ustr \<Rightarrow> bool" where
  "is_safe_filename U filename =
     (if filename \<noteq> lower U filename then False
      else
        let (base, ext) = split_filename filename in
        if ext \<noteq> [] \<and> \<not> match_dollar ext_pattern ext then False
        else if \<not> (match_dollar base_pattern_long base \<or>
                     match_dollar base_pattern_single base) then False
        else if contains (py ''--'') base \<or> contains (py ''__'') base \<or>
                contains (py ''-_'') base \<or> contains (py ''_-'') base then False
        else if int (length filename) > MAX_FILENAME_LENGTH then False
        else True)"

subsection \<open>\<open>add_collision_suffix\<close>\<close>

text \<open>
  An exception is modelled by its message, the value of \<^verbatim>\<open>str(e)\<close>, and by whether an
  \<^verbatim>\<open>except Exception\<close> clause catches it: \<open>Exception m\<close> is an instance of \<^verbatim>\<open>Exception\<close> or
  of a subclass (\<^verbatim>\<open>IOError\<close>, \<^verbatim>\<open>ValueError\<close>, \<^verbatim>\<open>UnicodeEncodeError\<close>), and \<open>BaseException m\<close> is
  one outside that hierarchy (\<^verbatim>\<open>KeyboardInterrupt\<close>, \<^verbatim>\<open>SystemExit\<close>), which such a clause lets
  through. Exceptions come from the calls into the runtime and the backend; an interrupt
  between two such calls is not modelled.

  \<^verbatim>\<open>hashlib.sha256(original_name.encode('utf-8')).hexdigest()\<close> is a parameter \<open>h\<close> of the
  model: the digest is computed by the runtime. It is partial, since \<^verbatim>\<open>encode\<close> raises
  \<^verbatim>\<open>UnicodeEncodeError\<close> on a name with a lone surrogate (what the runtime makes of the
  undecodable bytes of a file name).
\<close>

datatype exn = Exception ustr | BaseException ustr

type_synonym digest_fn = "ustr \<Rightarrow> exn + ustr"

definition add_collision_suffix :: "digest_fn \<Rightarrow> ustr \<Rightarrow> ustr \<Rightarrow> ustr \<Rightarrow> exn + ustr" where
  "add_collision_suffix h base_name extension original_name =
     (case h original_name of
        Inl e \<Rightarrow> Inl e
      | Inr hexdigest \<Rightarrow>
          let hash_suffix = take 8 hexdigest;
              suffix_part = py ''--'' @ hash_suffix;
              max_base_len =
                MAX_FILENAME_LENGTH - int (length extension) - int (length suffix_part);
              base_name1 =
                (if int (length base_name) > max_base_len then
                   rstrip SEPS (slice_to base_name max_base_len)
                 else base_name)
          in Inr (base_name1 @ suffix_part @ extension))"

section \<open>factory.py: \<open>is_remote_path\<close>\<close>

text \<open>
  The pattern is \<^verbatim>\<open>^[a-zA-Z][\w-]*:(?![\\\/])\<close>, applied with \<^verbatim>\<open>re.match\<close> to \<^verbatim>\<open>str(path)\<close>.
  \<^verbatim>\<open>\w\<close> is the runtime's class of Unicode word characters, a parameter \<open>W\<close>;
  \<open>word_ok\<close> says what it is on ASCII. \<open>remote_tail\<close> matches \<^verbatim>\<open>[\w-]*:(?![\\\/])\<close> at the
  start of its argument, trying every length of the starred part as the backtracking
  matcher does.
\<close>

definition ascii_word :: "nat \<Rightarrow> bool" where
  "ascii_word c = ((65 \<le> c \<and> c \<le> 90) \<or> (97 \<le> c \<and> c \<le> 122) \<or> (48 \<le> c \<and> c \<le> 57) \<or> c = 95)"

definition word_ok :: "(nat \<Rightarrow> bool) \<Rightarrow> bool" where
  "word_ok W = (\<forall>c<128. W c = ascii_word c)"

definition ascii_letter :: "nat \<Rightarrow> bool" where
  "ascii_letter c = ((65 \<le> c \<and> c \<le> 90) \<or> (97 \<le> c \<and> c \<le> 122))"

definition not_slash_next :: "ustr \<Rightarrow> bool" where
  "not_slash_next t = (case t of [] \<Rightarrow> True | d # _ \<Rightarrow> d \<noteq> 92 \<and> d \<noteq> 47)"

fun remote_tail :: "(nat \<Rightarrow> bool) \<Rightarrow> ustr \<Rightarrow> bool" where
  "remote_tail W [] = False"
| "remote_tail W (x # t) =
     ((x = 58 \<and> not_slash_next t) \<or> ((W x \<or> x = HYPHEN) \<and> remote_tail W t))"

definition is_remote_path :: "(nat \<Rightarrow> bool) \<Rightarrow> ustr \<Rightarrow> bool" where
  "is_remote_path W path_str =
     (case path_str of
        [] \<Rightarrow> False
      | c # r \<Rightarrow> ascii_letter c \<and> remote_tail W r)"


section \<open>domain/models.py\<close>

text \<open>
  A path is kept as its parent directory and its last component: \<^verbatim>\<open>file_path.name\<close>,
  \<^verbatim>\<open>file_path.parent\<close> and \<^verbatim>\<open>parent / safe_name\<close> are all the code asks of one.
\<close>

record path =
  parent :: ustr
  name :: ustr

definition path_join :: "ustr \<Rightarrow> ustr \<Rightarrow> path" where
  "path_join dir last_part = \<lparr> parent = dir, name = last_part \<rparr>"

text \<open>\<^verbatim>\<open>Path(str(new_path) + '.meta.json')\<close>.\<close>

definition meta_json_path :: "path \<Rightarrow> path" where
  "meta_json_path p = \<lparr> parent = parent p, name = name p @ py ''.meta.json'' \<rparr>"

record file_metadata =
  original_name :: ustr
  safe_name :: ustr
  size_bytes :: int
  hash_value :: ustr
  hash_algorithm :: ustr
  timestamp :: ustr

text \<open>The constructor of \<open>FileMetadata\<close> with its \<^verbatim>\<open>__post_init__\<close> check.\<close>

definition FileMetadata ::
  "ustr \<Rightarrow> ustr \<Rightarrow> int \<Rightarrow> ustr \<Rightarrow> ustr \<Rightarrow> ustr \<Rightarrow> exn + file_metadata" where
  "FileMetadata orig safe sz hv alg ts =
     (if alg \<notin> set [py ''sha256'', py ''md5''] then
        Inl (Exception (py ''Invalid hash algorithm: '' @ alg @ py ''. Must be '' @ [39] @
               py ''sha256'' @ [39] @ py '' or '' @ [39] @ py ''md5'' @ [39]))
      else
        Inr \<lparr> original_name = orig, safe_name = safe, size_bytes = sz, hash_value = hv,
              hash_algorithm = alg, timestamp = ts \<rparr>)"

record sidecar_content =
  schema :: ustr
  original_filename :: ustr
  safe_filename :: ustr
  file_size_bytes :: int
  hash :: ustr
  sc_hash_algorithm :: ustr
  renamed_at :: ustr

definition from_metadata :: "file_metadata \<Rightarrow> sidecar_content" where
  "from_metadata metadata =
     \<lparr> schema = py ''it.infrastructures.filemeta.v1'',
       original_filename = original_name metadata,
       safe_filename = safe_name metadata,
       file_size_bytes = size_bytes metadata,
       hash = hash_value metadata,
       sc_hash_algorithm = hash_algorithm metadata,
       renamed_at = timestamp metadata \<rparr>"

record rename_result =
  original_path :: path
  success :: bool
  new_path :: "path option"
  sidecar_path :: "path option"
  error :: "ustr option"
  skipped :: bool

definition RenameResult_success :: "path \<Rightarrow> path \<Rightarrow> path \<Rightarrow> rename_result" where
  "RenameResult_success orig new sidecar =
     \<lparr> original_path = orig, success = True, new_path = Some new,
       sidecar_path = Some sidecar, error = None, skipped = False \<rparr>"

definition RenameResult_skipped :: "path \<Rightarrow> ustr \<Rightarrow> rename_result" where
  "RenameResult_skipped orig reason =
     \<lparr> original_path = orig, success = True, new_path = None,
       sidecar_path = None, error = Some reason, skipped = True \<rparr>"

definition RenameResult_failure :: "path \<Rightarrow> ustr \<Rightarrow> rename_result" where
  "RenameResult_failure orig err =
     \<lparr> original_path = orig, success = False, new_path = None,
       sidecar_path = None, error = Some err, skipped = False \<rparr>"

section \<open>operations/base.py\<close>

text \<open>
  What \<open>BaseFileRenamer\<close> calls outside itself, over a state \<open>'w\<close> of the storage (files
  and sidecars): \<open>file_exists\<close> and \<open>list_files\<close> of the injected file operations,
  \<open>compute_hash\<close> and \<open>algorithm_name\<close> of the injected hasher, \<open>write_sidecar\<close> of the
  injected sidecar writer, and the two hooks of the subclass, \<open>_perform_rename\<close> and
  \<open>_get_file_size\<close>. A call returns its value or raises, \<open>Inl\<close> being the exception.
  The probes \<open>file_exists\<close> and \<open>list_files\<close> read the state; \<open>perform_rename\<close>,
  \<open>compute_hash\<close>, \<open>get_file_size\<close> and \<open>write_sidecar\<close> return the state they leave, also
  when they raise. \<open>clock\<close> is \<^verbatim>\<open>datetime.now().isoformat()\<close>. Logging is left out.
\<close>

record 'w backend =
  file_exists :: "path \<Rightarrow> 'w \<Rightarrow> exn + bool"
  list_files :: "path \<Rightarrow> bool \<Rightarrow> 'w \<Rightarrow> exn + path list"
  perform_rename :: "path \<Rightarrow> path \<Rightarrow> 'w \<Rightarrow> (exn + unit) \<times> 'w"
  compute_hash :: "path \<Rightarrow> 'w \<Rightarrow> (exn + ustr) \<times> 'w"
  algorithm_name :: ustr
  get_file_size :: "path \<Rightarrow> 'w \<Rightarrow> (exn + int) \<times> 'w"
  write_sidecar :: "path \<Rightarrow> sidecar_content \<Rightarrow> 'w \<Rightarrow> (exn + path) \<times> 'w"
  clock :: "'w \<Rightarrow> ustr"

text \<open>Step 4 of \<open>rename_file\<close>: the probe of the destination and the collision suffix.\<close>

definition handle_collision ::
  "digest_fn \<Rightarrow> 'w backend \<Rightarrow> ustr \<Rightarrow> ustr \<Rightarrow> ustr \<Rightarrow> 'w \<Rightarrow> exn + ustr" where
  "handle_collision h B dir filename safe w =
     (case file_exists B (path_join dir safe) w of
        Inl e \<Rightarrow> Inl e
      | Inr occupied \<Rightarrow>
          if occupied then
            (let (base, ext) = split_filename safe
             in add_collision_suffix h base ext filename)
          else Inr safe)"

text \<open>Steps 5 to 7 of \<open>rename_file\<close>, the part a dry run does not reach.\<close>

definition execute_rename ::
  "'w backend \<Rightarrow> path \<Rightarrow> ustr \<Rightarrow> ustr \<Rightarrow> path \<Rightarrow> 'w \<Rightarrow> (exn + rename_result) \<times> 'w" where
  "execute_rename B file_path filename safe new w =
     (case perform_rename B file_path new w of
        (Inl e, w1) \<Rightarrow> (Inl e, w1)
      | (Inr _, w1) \<Rightarrow>
          (case compute_hash B new w1 of
             (Inl e, w2) \<Rightarrow> (Inl e, w2)
           | (Inr file_hash, w2) \<Rightarrow>
               (case get_file_size B new w2 of
                  (Inl e, w3) \<Rightarrow> (Inl e, w3)
                | (Inr file_size, w3) \<Rightarrow>
                    (case FileMetadata filename safe file_size file_hash
                            (algorithm_name B) (clock B w3) of
                       Inl e \<Rightarrow> (Inl e, w3)
                     | Inr metadata \<Rightarrow>
                         (case write_sidecar B new (from_metadata metadata) w3 of
                            (Inl e, w4) \<Rightarrow> (Inl e, w4)
                          | (Inr sidecar, w4) \<Rightarrow>
                              (Inr (RenameResult_success file_path new sidecar), w4))))))"

text \<open>The body of the \<^verbatim>\<open>try\<close> of \<open>rename_file\<close>.\<close>

definition rename_file_try ::
  "unicode_lib \<Rightarrow> digest_fn \<Rightarrow> 'w backend \<Rightarrow> path \<Rightarrow> bool \<Rightarrow> 'w \<Rightarrow>
     (exn + rename_result) \<times> 'w" where
  "rename_file_try U h B file_path dry_run w =
     (let filename = name file_path in
      if is_system_file filename then
        (Inr (RenameResult_skipped file_path (py ''System file'')), w)
      else if is_safe_filename U filename then
        (Inr (RenameResult_skipped file_path (py ''Already safe'')), w)
      else
        (case handle_collision h B (parent file_path) filename (sanitize U filename) w of
           Inl e \<Rightarrow> (Inl e, w)
         | Inr safe \<Rightarrow>
             let new = path_join (parent file_path) safe in
             if dry_run then
               (Inr (RenameResult_success file_path new (meta_json_path new)), w)
             else execute_rename B file_path filename safe new w))"

text \<open>
  \<open>rename_file\<close>: the \<^verbatim>\<open>except Exception\<close> turns an \<open>Exception\<close> that the body raises into
  a failure result; any other exception leaves the function, which is the \<open>Inl\<close> of the
  result.
\<close>

definition rename_file ::
  "unicode_lib \<Rightarrow> digest_fn \<Rightarrow> 'w backend \<Rightarrow> path \<Rightarrow> bool \<Rightarrow> 'w \<Rightarrow>
     (exn + rename_result) \<times> 'w" where
  "rename_file U h B file_path dry_run w =
     (case rename_file_try U h B file_path dry_run w of
        (Inl (Exception m), w1) \<Rightarrow> (Inr (RenameResult_failure file_path m), w1)
      | (Inl (BaseException m), w1) \<Rightarrow> (Inl (BaseException m), w1)
      | (Inr r, w1) \<Rightarrow> (Inr r, w1))"

text \<open>
  The \<^verbatim>\<open>for\<close> loop of \<open>rename_directory\<close>, with \<open>results\<close> as accumulator. It returns
  the exception that stopped it, if any, and the results appended so far.
\<close>

fun rename_loop ::
  "unicode_lib \<Rightarrow> digest_fn \<Rightarrow> 'w backend \<Rightarrow> bool \<Rightarrow> path list \<Rightarrow> rename_result list \<Rightarrow> 'w \<Rightarrow>
     (exn option \<times> rename_result list) \<times> 'w" where
  "rename_loop U h B dry_run [] results w = ((None, results), w)"
| "rename_loop U h B dry_run (file_path # files) results w =
     (case rename_file U h B file_path dry_run w of
        (Inl e, w1) \<Rightarrow> ((Some e, results), w1)
      | (Inr result, w1) \<Rightarrow> rename_loop U h B dry_run files (results @ [result]) w1)"

text \<open>
  \<open>rename_directory\<close>: the \<^verbatim>\<open>try\<close> covers the listing and the loop, the handler of
  \<^verbatim>\<open>except Exception\<close> logs, and \<open>results\<close> is returned after it. An exception that the
  handler does not catch leaves the function.
\<close>

definition rename_directory ::
  "unicode_lib \<Rightarrow> digest_fn \<Rightarrow> 'w backend \<Rightarrow> path \<Rightarrow> bool \<Rightarrow> bool \<Rightarrow> 'w \<Rightarrow>
     (exn + rename_result list) \<times> 'w" where
  "rename_directory U h B directory recursive dry_run w =
     (case list_files B directory recursive w of
        Inl (Exception m) \<Rightarrow> (Inr [], w)
      | Inl (BaseException m) \<Rightarrow> (Inl (BaseException m), w)
      | Inr files \<Rightarrow>
          (case rename_loop U h B dry_run files [] w of
             ((None, results), w1) \<Rightarrow> (Inr results, w1)
           | ((Some (Exception m), results), w1) \<Rightarrow> (Inr results, w1)
           | ((Some (BaseException m), results), w1) \<Rightarrow> (Inl (BaseException m), w1)))"

section \<open>Predicates and inputs of the verification\<close>

text \<open>
  The grammar of a safe name, as \<open>is_safe_filename\<close> checks it: \<open>base_grammar\<close> for the
  base (it starts and ends with a character of \<^verbatim>\<open>[a-z0-9]\<close>, it has only those and the
  two separators, and no two separators are adjacent) and \<open>ext_grammar\<close> for the one-segment
  extension that \<open>sanitize_extension\<close> returns. \<open>strict_base\<close> is the base grammar without
  the underscore: what \<open>sanitize_base_name\<close> returns.
\<close>

definition is_sep :: "nat \<Rightarrow> bool" where
  "is_sep c = (c = HYPHEN \<or> c = UNDERSCORE)"

fun no_adjacent_seps :: "ustr \<Rightarrow> bool" where
  "no_adjacent_seps [] = True"
| "no_adjacent_seps [c] = True"
| "no_adjacent_seps (c # d # r) = (\<not> (is_sep c \<and> is_sep d) \<and> no_adjacent_seps (d # r))"

definition base_grammar :: "ustr \<Rightarrow> bool" where
  "base_grammar t =
     (t \<noteq> [] \<and> az09 (hd t) \<and> az09 (last t) \<and>
      list_all (\<lambda>c. az09 c \<or> is_sep c) t \<and> no_adjacent_seps t)"

definition strict_base :: "ustr \<Rightarrow> bool" where
  "strict_base t =
     (t \<noteq> [] \<and> az09 (hd t) \<and> az09 (last t) \<and>
      list_all (\<lambda>c. az09 c \<or> c = HYPHEN) t \<and> no_adjacent_seps t)"

definition ext_grammar :: "ustr \<Rightarrow> bool" where
  "ext_grammar e = (e = [] \<or> (hd e = DOT \<and> tl e \<noteq> [] \<and> list_all az09 (tl e)))"

text \<open>The invariant of the character loop, on \<open>result\<close> and \<open>prev_sep\<close>.\<close>

definition loop_inv :: "ustr \<Rightarrow> bool \<Rightarrow> bool" where
  "loop_inv r ps =
     (list_all (\<lambda>c. az09 c \<or> c = HYPHEN) r \<and> (r \<noteq> [] \<longrightarrow> az09 (hd r)) \<and>
      no_adjacent_seps r \<and> (r \<noteq> [] \<and> last r = HYPHEN \<longrightarrow> ps))"

text \<open>ASCII without the capital letters: text that the runtime functions leave alone.\<close>

definition low_ascii :: "nat \<Rightarrow> bool" where
  "low_ascii c = (c < 128 \<and> \<not> (65 \<le> c \<and> c \<le> 90))"

text \<open>
  Two inputs: the name \<^verbatim>\<open>"a." + "b" * 200\<close>, whose extension alone is longer than the
  limit, and \<^verbatim>\<open>"caf\\u00e9.jpg"\<close>.
\<close>

definition long_extension_name :: ustr where
  "long_extension_name = py ''a.'' @ replicate 200 98"

definition cafe_jpg :: ustr where
  "cafe_jpg = py ''caf'' @ [233] @ py ''.jpg''"

section \<open>Backends and files for the evaluations\<close>

text \<open>
  An in-memory backend: the state is the list of the paths that exist, every path is
  listed, a rename replaces the old path by the new one, and the rename of the path
  \<open>failing\<close>, if one is given, raises. \<open>broken_backend\<close> is a backend whose probe and
  listing raise an \<open>Exception\<close>, as the remote one does when its external program cannot
  be started.
\<close>

definition mem_backend :: "path option \<Rightarrow> (path list) backend" where
  "mem_backend failing =
     \<lparr> file_exists = (\<lambda>p w. Inr (p \<in> set w)),
       list_files = (\<lambda>d r w. Inr w),
       perform_rename = (\<lambda>old new w.
          if Some old = failing then (Inl (Exception (py ''Local rename failed'')), w)
          else (Inr (), map (\<lambda>p. if p = old then new else p) w)),
       compute_hash = (\<lambda>p w. (Inr (py ''00''), w)),
       algorithm_name = py ''sha256'',
       get_file_size = (\<lambda>p w. (Inr 0, w)),
       write_sidecar = (\<lambda>p c w. (Inr (meta_json_path p), w)),
       clock = (\<lambda>w. py ''2025-01-01T00:00:00'') \<rparr>"

definition broken_backend :: "(path list) backend" where
  "broken_backend =
     (mem_backend None)
       \<lparr> file_exists := (\<lambda>p w. Inl (Exception (py ''rclone not found''))),
         list_files := (\<lambda>d r w. Inl (Exception (py ''rclone not found''))) \<rparr>"

text \<open>
  A backend whose probe and listing are interrupted: they raise \<^verbatim>\<open>KeyboardInterrupt\<close>.
\<close>

definition interrupted_backend :: "(path list) backend" where
  "interrupted_backend =
     (mem_backend None)
       \<lparr> file_exists := (\<lambda>p w. Inl (BaseException (py ''KeyboardInterrupt''))),
         list_files := (\<lambda>d r w. Inl (BaseException (py ''KeyboardInterrupt''))) \<rparr>"

text \<open>
  Two files of the directory \<^verbatim>\<open>d\<close> whose names both sanitize to \<^verbatim>\<open>my-file.txt\<close>, that
  destination, and the destination with the collision suffix of a digest \<open>d\<close>.
\<close>

definition dir_d :: path where
  "dir_d = \<lparr> parent = [], name = py ''d'' \<rparr>"

definition my_file :: path where
  "my_file = \<lparr> parent = py ''d'', name = py ''My File.txt'' \<rparr>"

definition my_file2 :: path where
  "my_file2 = \<lparr> parent = py ''d'', name = py ''my  file.txt'' \<rparr>"

definition my_file_new :: path where
  "my_file_new = \<lparr> parent = py ''d'', name = py ''my-file.txt'' \<rparr>"

definition my_file_new_suffixed :: "ustr \<Rightarrow> path" where
  "my_file_new_suffixed d =
     \<lparr> parent = py ''d'', name = py ''my-file'' @ py ''--'' @ take 8 d @ py ''.txt'' \<rparr>"

section \<open>Lemmas about the sanitizer\<close>

subsection \<open>Character classes and splitting\<close>

lemma ALNUM_az09: "c \<in> set ALNUM \<longleftrightarrow> az09 c"
  unfolding ALNUM_def py_def az09_def by simp arith

lemma SEPS_iff: "c \<in> set SEPS \<longleftrightarrow> c = HYPHEN \<or> c = UNDERSCORE"
  by (auto simp: SEPS_def py_def HYPHEN_def UNDERSCORE_def)

lemma rsplit1_None: "rsplit1 sep s = None \<longleftrightarrow> sep \<notin> set s"
  by (induction s) (auto split: option.splits)

lemma rsplit1_Some: "rsplit1 sep s = Some (a, b) \<Longrightarrow> s = a @ sep # b \<and> sep \<notin> set b"
  by (induction s arbitrary: a b) (auto split: option.splits if_splits simp: rsplit1_None)

lemma rsplit1_append: "sep \<notin> set b \<Longrightarrow> rsplit1 sep (a @ sep # b) = Some (a, b)"
proof (induction a)
  case Nil
  then have "rsplit1 sep b = None" by (simp add: rsplit1_None)
  then show ?case by simp
next
  case (Cons c a)
  then show ?case by simp
qed

lemma rsplit_two: "rsplit sep 2 s =
  (case rsplit1 sep s of None \<Rightarrow> [s]
   | Some (a, b) \<Rightarrow> (case rsplit1 sep a of None \<Rightarrow> [a, b] | Some (a1, a2) \<Rightarrow> [a1, a2, b]))"
  by (simp add: numeral_2_eq_2 split: option.splits)

lemma split_filename_no_dot: "DOT \<notin> set s \<Longrightarrow> split_filename s = (s, [])"
proof -
  assume "DOT \<notin> set s"
  then have "rsplit1 DOT s = None" by (simp add: rsplit1_None)
  then show ?thesis by (simp add: split_filename_def rsplit_two)
qed

lemma split_filename_one_dot:
  assumes "DOT \<notin> set a" and "DOT \<notin> set b"
  shows "split_filename (a @ DOT # b) = (a, DOT # b)"
proof -
  have 1: "rsplit1 DOT (a @ DOT # b) = Some (a, b)" using assms(2) by (rule rsplit1_append)
  have 2: "rsplit1 DOT a = None" using assms(1) by (simp add: rsplit1_None)
  show ?thesis by (simp add: split_filename_def rsplit_two 1 2)
qed

lemma split_filename_cases:
  "(DOT \<notin> set s \<and> split_filename s = (s, [])) \<or>
   (\<exists>a b. s = a @ DOT # b \<and> DOT \<notin> set b \<and>
      (split_filename s = (a, DOT # b) \<or>
       (\<exists>c d. a = c @ DOT # d \<and> DOT \<notin> set d \<and> d \<in> {py ''tar'', py ''backup''} \<and>
          split_filename s = (c, DOT # d @ DOT # b))))"
proof (cases "rsplit1 DOT s")
  case None
  then show ?thesis by (simp add: split_filename_no_dot rsplit1_None)
next
  case (Some ab)
  obtain a b where ab: "ab = (a, b)" by (cases ab)
  with Some have s: "s = a @ DOT # b" "DOT \<notin> set b" by (auto dest: rsplit1_Some)
  have r1: "rsplit1 DOT s = Some (a, b)" using Some ab by simp
  show ?thesis
  proof (cases "rsplit1 DOT a")
    case None
    then have "split_filename s = (a, DOT # b)"
      by (simp add: split_filename_def rsplit_two r1)
    with s show ?thesis by blast
  next
    case (Some cd)
    obtain c d where cd: "cd = (c, d)" by (cases cd)
    with Some have a: "a = c @ DOT # d" "DOT \<notin> set d" by (auto dest: rsplit1_Some)
    have r2: "rsplit1 DOT a = Some (c, d)" using Some cd by simp
    show ?thesis
    proof (cases "d \<in> {py ''tar'', py ''backup''}")
      case True
      then have "split_filename s = (c, DOT # d @ DOT # b)"
        by (auto simp: split_filename_def rsplit_two r1 r2)
      with s a True show ?thesis by blast
    next
      case False
      then have "split_filename s = (c @ [DOT] @ d, DOT # b)"
        by (auto simp: split_filename_def rsplit_two r1 r2)
      then have "split_filename s = (a, DOT # b)" by (simp add: a)
      with s show ?thesis by blast
    qed
  qed
qed

lemma split_filename_parts:
  "set (fst (split_filename s)) \<subseteq> set s \<and> set (snd (split_filename s)) \<subseteq> set s"
  using split_filename_cases [of s] by auto

subsection \<open>Separators and \<open>rstrip\<close>\<close>

lemma is_sep_not_az09: "is_sep c \<Longrightarrow> \<not> az09 c"
  by (auto simp: is_sep_def az09_def HYPHEN_def UNDERSCORE_def)

lemma az09_not_DOT: "az09 c \<Longrightarrow> c \<noteq> DOT"
  by (auto simp: az09_def DOT_def)

lemma is_sep_not_DOT: "is_sep c \<Longrightarrow> c \<noteq> DOT"
  by (auto simp: is_sep_def DOT_def HYPHEN_def UNDERSCORE_def)

lemma SEPS_is_sep: "c \<in> set SEPS \<longleftrightarrow> is_sep c"
  by (simp add: SEPS_iff is_sep_def)

lemma no_adjacent_seps_append:
  "no_adjacent_seps (xs @ ys) \<longleftrightarrow>
     no_adjacent_seps xs \<and> no_adjacent_seps ys \<and>
     (xs = [] \<or> ys = [] \<or> \<not> (is_sep (last xs) \<and> is_sep (hd ys)))"
proof (induction xs rule: no_adjacent_seps.induct)
  case 1
  then show ?case by simp
next
  case (2 c)
  then show ?case by (cases ys) auto
next
  case (3 c d r)
  then show ?case by auto
qed

lemma no_adjacent_seps_take: "no_adjacent_seps xs \<Longrightarrow> no_adjacent_seps (take n xs)"
proof -
  assume a: "no_adjacent_seps xs"
  have "xs = take n xs @ drop n xs" by simp
  with a have "no_adjacent_seps (take n xs @ drop n xs)" by simp
  then show ?thesis unfolding no_adjacent_seps_append by blast
qed

lemma rstrip_prefix: "\<exists>z. s = rstrip chars s @ z \<and> set z \<subseteq> set chars"
proof -
  let ?z = "rev (takeWhile (\<lambda>c. c \<in> set chars) (rev s))"
  have "rev s = takeWhile (\<lambda>c. c \<in> set chars) (rev s) @ dropWhile (\<lambda>c. c \<in> set chars) (rev s)"
    by simp
  then have "s = rev (dropWhile (\<lambda>c. c \<in> set chars) (rev s)) @ ?z"
    by (metis rev_append rev_rev_ident)
  moreover have "set ?z \<subseteq> set chars"
    by (auto dest: set_takeWhileD)
  ultimately show ?thesis unfolding rstrip_def by blast
qed

lemma rstrip_last: "rstrip chars s \<noteq> [] \<Longrightarrow> last (rstrip chars s) \<notin> set chars"
proof -
  assume "rstrip chars s \<noteq> []"
  then have ne: "dropWhile (\<lambda>c. c \<in> set chars) (rev s) \<noteq> []" by (simp add: rstrip_def)
  then have "hd (dropWhile (\<lambda>c. c \<in> set chars) (rev s)) \<notin> set chars"
    by (rule hd_dropWhile)
  with ne show ?thesis by (simp add: rstrip_def last_rev)
qed

lemma rstrip_id: "s = [] \<or> last s \<notin> set chars \<Longrightarrow> rstrip chars s = s"
  unfolding rstrip_def by (cases "rev s") (auto simp: last_rev hd_rev)

lemma rstrip_length: "length (rstrip chars s) \<le> length s"
proof -
  have "length (dropWhile (\<lambda>c. c \<in> set chars) (rev s)) \<le> length (rev s)"
    by (rule length_dropWhile_le)
  then show ?thesis by (simp add: rstrip_def)
qed

lemma rstrip_nonempty: "s \<noteq> [] \<Longrightarrow> hd s \<notin> set chars \<Longrightarrow> rstrip chars s \<noteq> [] \<and> hd (rstrip chars s) = hd s"
proof -
  assume s: "s \<noteq> []" and h: "hd s \<notin> set chars"
  obtain z where z: "s = rstrip chars s @ z" "set z \<subseteq> set chars" using rstrip_prefix by blast
  show ?thesis
  proof (cases "rstrip chars s")
    case Nil
    with z s h show ?thesis by (cases z) auto
  next
    case (Cons a list)
    with z show ?thesis by (metis hd_append2 list.distinct(1))
  qed
qed

subsection \<open>The character loop and \<open>sanitize_base_name\<close>\<close>

lemma loop_inv_alnum: "loop_inv r ps \<Longrightarrow> az09 c \<Longrightarrow> loop_inv (r @ [c]) False"
proof -
  assume inv: "loop_inv r ps" and c: "az09 c"
  have ns: "\<not> is_sep c" using c is_sep_not_az09 by blast
  have nh: "c \<noteq> HYPHEN" using ns by (auto simp: is_sep_def)
  have "hd (r @ [c]) = (if r = [] then c else hd r)" by (cases r) auto
  with inv c ns nh show ?thesis
    by (auto simp: loop_inv_def no_adjacent_seps_append)
qed

lemma loop_inv_sep: "loop_inv r ps \<Longrightarrow> \<not> ps \<Longrightarrow> r \<noteq> [] \<Longrightarrow> loop_inv (r @ [HYPHEN]) True"
proof -
  assume inv: "loop_inv r ps" and ps: "\<not> ps" and ne: "r \<noteq> []"
  from inv ps ne have l: "last r \<noteq> HYPHEN" by (auto simp: loop_inv_def)
  from inv ne have "az09 (last r) \<or> last r = HYPHEN"
    by (auto simp: loop_inv_def list_all_iff)
  with l have "az09 (last r)" by simp
  then have "\<not> is_sep (last r)" using is_sep_not_az09 by blast
  with inv ne show ?thesis
    by (auto simp: loop_inv_def no_adjacent_seps_append)
qed

lemma base_loop_inv: "loop_inv r ps \<Longrightarrow> \<exists>ps'. loop_inv (base_loop cs r ps) ps'"
proof (induction cs arbitrary: r ps)
  case Nil
  then show ?case by auto
next
  case (Cons c cs)
  show ?case
  proof (cases "c \<in> set ALNUM")
    case True
    then have "loop_inv (r @ [c]) False" using Cons.prems by (simp add: loop_inv_alnum ALNUM_az09)
    from Cons.IH [OF this] True show ?thesis by simp
  next
    case False
    show ?thesis
    proof (cases "(c \<in> set SEPS \<or> c \<in> set WHITESPACE) \<and> \<not> ps \<and> r \<noteq> []")
      case True
      then have "loop_inv (r @ [HYPHEN]) True" using Cons.prems by (simp add: loop_inv_sep)
      from Cons.IH [OF this] True False show ?thesis by auto
    next
      case b: False
      from Cons.IH [OF Cons.prems] False b show ?thesis by auto
    qed
  qed
qed

lemma collapse_seps_id:
  "no_adjacent_seps t \<Longrightarrow> UNDERSCORE \<notin> set t \<Longrightarrow> (f \<longrightarrow> t = [] \<or> \<not> is_sep (hd t)) \<Longrightarrow>
   collapse_seps f t = t"
proof (induction t arbitrary: f)
  case Nil
  then show ?case by simp
next
  case (Cons c t)
  have tl: "no_adjacent_seps t" using Cons.prems(1) by (cases t) auto
  have nx: "is_sep c \<longrightarrow> t = [] \<or> \<not> is_sep (hd t)" using Cons.prems(1) by (cases t) auto
  show ?case
  proof (cases "c = HYPHEN")
    case True
    then have "\<not> f" using Cons.prems(3) by (auto simp: is_sep_def)
    moreover have "collapse_seps True t = t"
      using Cons.IH [of True] tl nx True Cons.prems(2) by (auto simp: is_sep_def)
    ultimately show ?thesis using True by simp
  next
    case False
    moreover have "c \<noteq> UNDERSCORE" using Cons.prems(2) by auto
    moreover have "collapse_seps False t = t"
      using Cons.IH [of False] tl Cons.prems(2) by auto
    ultimately show ?thesis by simp
  qed
qed

lemma strict_base_file: "strict_base (py ''file'')"
  by (simp add: strict_base_def py_def az09_def is_sep_def HYPHEN_def UNDERSCORE_def)

lemma sanitize_base_name_strict: "strict_base (sanitize_base_name U n)"
proof -
  define r where "r = base_loop (transliterate (lower U (normalize_unicode U n))) [] False"
  define s1 where "s1 = rstrip SEPS r"
  have "loop_inv [] False" by (simp add: loop_inv_def)
  then obtain ps' where inv: "loop_inv r ps'" unfolding r_def using base_loop_inv by blast
  obtain z where z: "r = s1 @ z" "set z \<subseteq> set SEPS" unfolding s1_def using rstrip_prefix by blast
  have all1: "list_all (\<lambda>c. az09 c \<or> c = HYPHEN) s1"
    using inv z(1) by (auto simp: loop_inv_def)
  have na1: "no_adjacent_seps s1"
    using inv z(1) by (auto simp: loop_inv_def no_adjacent_seps_append)
  have hd1: "s1 \<noteq> [] \<longrightarrow> az09 (hd s1)"
    using inv z(1) by (auto simp: loop_inv_def)
  have last1: "s1 \<noteq> [] \<longrightarrow> az09 (last s1)"
  proof
    assume ne: "s1 \<noteq> []"
    then have "last s1 \<notin> set SEPS" unfolding s1_def by (rule rstrip_last)
    moreover have "az09 (last s1) \<or> last s1 = HYPHEN"
      using all1 ne by (auto simp: list_all_iff)
    ultimately show "az09 (last s1)" by (auto simp: SEPS_iff)
  qed
  have us: "UNDERSCORE \<notin> set s1"
    using all1 by (auto simp: list_all_iff az09_def UNDERSCORE_def HYPHEN_def)
  have d: "dropWhile (\<lambda>c. \<not> az09 c) s1 = s1" using hd1 by (cases s1) auto
  have c: "collapse_seps False s1 = s1" using na1 us by (simp add: collapse_seps_id)
  have eq: "sanitize_base_name U n = (if s1 = [] then py ''file'' else s1)"
    by (simp add: sanitize_base_name_def Let_def r_def [symmetric] s1_def [symmetric] d c)
  show ?thesis
  proof (cases "s1 = []")
    case True
    with eq show ?thesis by (simp add: strict_base_file)
  next
    case False
    with eq all1 na1 hd1 last1 show ?thesis by (simp add: strict_base_def)
  qed
qed

subsection \<open>Text the runtime leaves alone, and fixed points\<close>

lemma az09_low_ascii: "az09 c \<Longrightarrow> low_ascii c"
  by (auto simp: az09_def low_ascii_def)

lemma is_sep_low_ascii: "is_sep c \<Longrightarrow> low_ascii c"
  by (auto simp: is_sep_def low_ascii_def HYPHEN_def UNDERSCORE_def)

lemma DOT_low_ascii: "low_ascii DOT"
  by (simp add: low_ascii_def DOT_def)

lemma low_ascii_plain: "list_all low_ascii s \<Longrightarrow> list_all plain s"
  by (induction s) (auto simp: low_ascii_def plain_def)

lemma low_ascii_lower_map: "list_all low_ascii s \<Longrightarrow> map ascii_lower s = s"
  by (induction s) (auto simp: low_ascii_def ascii_lower_def)

lemma nfkc_low_ascii: "unicode_ok U \<Longrightarrow> list_all low_ascii s \<Longrightarrow> nfkc U s = s"
  by (simp add: unicode_ok_def low_ascii_plain)

lemma lower_low_ascii: "unicode_ok U \<Longrightarrow> list_all low_ascii s \<Longrightarrow> lower U s = s"
  by (simp add: unicode_ok_def low_ascii_plain low_ascii_lower_map)

lemma map_of_TRANSLITERATION_MAP_ascii: "c < 128 \<Longrightarrow> map_of TRANSLITERATION_MAP c = None"
  by (simp add: TRANSLITERATION_MAP_def)

lemma transliterate_low_ascii: "list_all low_ascii s \<Longrightarrow> transliterate s = s"
  by (induction s) (auto simp: transliterate_def map_of_TRANSLITERATION_MAP_ascii low_ascii_def)

lemma base_loop_id:
  "list_all (\<lambda>c. az09 c \<or> c = HYPHEN) t \<Longrightarrow> no_adjacent_seps t \<Longrightarrow>
   (t \<noteq> [] \<and> hd t = HYPHEN \<longrightarrow> \<not> ps \<and> r \<noteq> []) \<Longrightarrow> base_loop t r ps = r @ t"
proof (induction t arbitrary: r ps)
  case Nil
  then show ?case by simp
next
  case (Cons c t)
  have tl: "no_adjacent_seps t" using Cons.prems(2) by (cases t) auto
  have all: "list_all (\<lambda>c. az09 c \<or> c = HYPHEN) t" using Cons.prems(1) by simp
  show ?case
  proof (cases "az09 c")
    case True
    then have "base_loop (c # t) r ps = base_loop t (r @ [c]) False" by (simp add: ALNUM_az09)
    also have "\<dots> = (r @ [c]) @ t" using all tl by (intro Cons.IH) auto
    finally show ?thesis by simp
  next
    case False
    then have c: "c = HYPHEN" using Cons.prems(1) by simp
    then have pr: "\<not> ps" "r \<noteq> []" using Cons.prems(3) by auto
    have nx: "t = [] \<or> hd t \<noteq> HYPHEN" using Cons.prems(2) c by (cases t) (auto simp: is_sep_def)
    have "base_loop (c # t) r ps = base_loop t (r @ [HYPHEN]) True"
      using False c pr by (simp add: ALNUM_az09 SEPS_iff)
    also have "\<dots> = (r @ [HYPHEN]) @ t" using all tl nx by (intro Cons.IH) auto
    finally show ?thesis using c by simp
  qed
qed

lemma strict_base_low_ascii: "strict_base t \<Longrightarrow> list_all low_ascii t"
proof -
  assume "strict_base t"
  then have "\<forall>c\<in>set t. az09 c \<or> is_sep c"
    by (auto simp: strict_base_def list_all_iff is_sep_def)
  then show ?thesis
    using az09_low_ascii is_sep_low_ascii by (auto simp: list_all_iff)
qed

lemma sanitize_base_name_fixed:
  assumes U: "unicode_ok U" and t: "strict_base t"
  shows "sanitize_base_name U t = t"
proof -
  have la: "list_all low_ascii t" using t by (rule strict_base_low_ascii)
  have 1: "lower U (normalize_unicode U t) = t"
    using U la by (simp add: normalize_unicode_def nfkc_low_ascii lower_low_ascii)
  have 2: "transliterate t = t" using la by (rule transliterate_low_ascii)
  have hd: "hd t \<noteq> HYPHEN" using t is_sep_not_az09 [of "hd t"] by (auto simp: strict_base_def is_sep_def)
  have 3: "base_loop t [] False = t"
    using base_loop_id [of t False "[]"] t hd by (simp add: strict_base_def)
  have "last t \<notin> set SEPS" using t is_sep_not_az09 [of "last t"] by (auto simp: strict_base_def SEPS_is_sep)
  then have 4: "rstrip SEPS t = t" by (simp add: rstrip_id)
  have 5: "dropWhile (\<lambda>c. \<not> az09 c) t = t" using t by (cases t) (auto simp: strict_base_def)
  have "UNDERSCORE \<notin> set t"
    using t by (auto simp: strict_base_def list_all_iff az09_def UNDERSCORE_def HYPHEN_def)
  then have 6: "collapse_seps False t = t" using t by (simp add: collapse_seps_id strict_base_def)
  have "t \<noteq> []" using t by (simp add: strict_base_def)
  then show ?thesis by (simp add: sanitize_base_name_def Let_def 1 2 3 4 5 6)
qed

lemma sanitize_extension_grammar: "ext_grammar (sanitize_extension U e)"
  by (auto simp: sanitize_extension_def ext_grammar_def Let_def list_all_iff ALNUM_az09)

lemma sanitize_extension_fixed:
  assumes U: "unicode_ok U" and e: "ext_grammar e"
  shows "sanitize_extension U e = e"
proof (cases "e = []")
  case True
  then show ?thesis by (simp add: sanitize_extension_def)
next
  case False
  with e obtain r where r: "e = DOT # r" "r \<noteq> []" "list_all az09 r"
    by (cases e) (auto simp: ext_grammar_def)
  have "hd r \<noteq> DOT" using r az09_not_DOT [of "hd r"] by (cases r) auto
  then have 1: "lstrip [DOT] e = r" using r by (cases r) (auto simp: lstrip_def)
  have "list_all low_ascii r" using r(3) by (auto simp: list_all_iff az09_low_ascii)
  then have 2: "lower U r = r" using U by (simp add: lower_low_ascii)
  have 3: "filter (\<lambda>c. c \<in> set ALNUM) r = r" using r(3) by (simp add: ALNUM_az09 list_all_iff)
  show ?thesis using r(2) unfolding sanitize_extension_def Let_def 1 2 3 by (simp add: r(1))
qed

subsection \<open>Reserved names and truncation\<close>

lemma strict_base_iff: "strict_base t \<longleftrightarrow> base_grammar t \<and> UNDERSCORE \<notin> set t"
proof
  assume s: "strict_base t"
  then have "UNDERSCORE \<notin> set t"
    by (auto simp: strict_base_def list_all_iff az09_def UNDERSCORE_def HYPHEN_def)
  moreover have "base_grammar t"
    using s by (auto simp: strict_base_def base_grammar_def list_all_iff is_sep_def)
  ultimately show "base_grammar t \<and> UNDERSCORE \<notin> set t" by simp
next
  assume "base_grammar t \<and> UNDERSCORE \<notin> set t"
  then show "strict_base t"
    by (auto simp: strict_base_def base_grammar_def list_all_iff is_sep_def)
qed

lemma base_grammar_file_prefix: "strict_base t \<Longrightarrow> base_grammar (py ''file_'' @ t)"
proof -
  assume t: "strict_base t"
  define P where "P = [102, 105, 108, 101, UNDERSCORE]"
  have f: "py ''file_'' = P" by (simp add: py_def UNDERSCORE_def P_def)
  have n: "no_adjacent_seps P"
    by (simp add: is_sep_def HYPHEN_def UNDERSCORE_def P_def)
  have a: "list_all (\<lambda>c. az09 c \<or> is_sep c) P"
    by (simp add: az09_def is_sep_def P_def)
  have ne: "t \<noteq> []" "P \<noteq> []" using t by (auto simp: strict_base_def P_def)
  have "\<not> is_sep (hd t)" using t is_sep_not_az09 by (auto simp: strict_base_def)
  then have na: "no_adjacent_seps (P @ t)"
    unfolding no_adjacent_seps_append using n t by (simp add: strict_base_def)
  have hd: "az09 (hd (P @ t))" by (simp add: P_def az09_def)
  have last: "az09 (last (P @ t))" using t ne by (simp add: strict_base_def)
  have "list_all (\<lambda>c. az09 c \<or> is_sep c) t"
    using t by (auto simp: strict_base_def list_all_iff is_sep_def)
  with a have all: "list_all (\<lambda>c. az09 c \<or> is_sep c) (P @ t)" by simp
  show ?thesis unfolding f base_grammar_def using na hd last all ne by simp
qed

lemma check_reserved_name_grammar: "strict_base t \<Longrightarrow> base_grammar (check_reserved_name U t)"
  by (simp add: check_reserved_name_def base_grammar_file_prefix strict_base_iff)

lemma check_reserved_name_ok:
  "unicode_ok U \<Longrightarrow> strict_base t \<Longrightarrow>
   check_reserved_name U t = (if t \<in> set RESERVED_NAMES then py ''file_'' @ t else t)"
  by (simp add: check_reserved_name_def lower_low_ascii strict_base_low_ascii)

lemma seps_run_short: "no_adjacent_seps z \<Longrightarrow> set z \<subseteq> set SEPS \<Longrightarrow> length z \<le> 1"
  by (induction z rule: no_adjacent_seps.induct) (auto simp: SEPS_is_sep)

lemma rstrip_grammar:
  assumes all: "list_all (\<lambda>c. az09 c \<or> is_sep c) t" and na: "no_adjacent_seps t"
    and ne: "t \<noteq> []" and hd: "az09 (hd t)"
  shows "base_grammar (rstrip SEPS t) \<and> length t \<le> Suc (length (rstrip SEPS t)) \<and>
         set (rstrip SEPS t) \<subseteq> set t"
proof -
  obtain z where z: "t = rstrip SEPS t @ z" "set z \<subseteq> set SEPS" using rstrip_prefix by blast
  have "hd t \<notin> set SEPS" using hd is_sep_not_az09 by (auto simp: SEPS_is_sep)
  then have r: "rstrip SEPS t \<noteq> []" "hd (rstrip SEPS t) = hd t" using ne rstrip_nonempty by auto
  have sub: "set (rstrip SEPS t) \<subseteq> set t" using z(1) by (metis set_append sup_ge1)
  have all': "list_all (\<lambda>c. az09 c \<or> is_sep c) (rstrip SEPS t)"
    using all sub by (auto simp: list_all_iff)
  have "no_adjacent_seps (rstrip SEPS t @ z)" using na z(1) by simp
  then have na': "no_adjacent_seps (rstrip SEPS t)" and nz: "no_adjacent_seps z"
    unfolding no_adjacent_seps_append by auto
  have "last (rstrip SEPS t) \<notin> set SEPS" using r(1) by (rule rstrip_last)
  moreover have "last (rstrip SEPS t) \<in> set (rstrip SEPS t)" using r(1) by simp
  ultimately have l: "az09 (last (rstrip SEPS t))" using all' by (auto simp: list_all_iff SEPS_is_sep)
  have "length z \<le> 1" using nz z(2) by (rule seps_run_short)
  moreover have "length t = length (rstrip SEPS t) + length z" using z(1) by (metis length_append)
  ultimately have len: "length t \<le> Suc (length (rstrip SEPS t))" by simp
  show ?thesis using r hd all' na' l len sub by (simp add: base_grammar_def)
qed

lemma truncate_if_needed_length:
  "length e \<le> 180 \<Longrightarrow> length (truncate_if_needed t e) + length e \<le> 180"
proof -
  assume e: "length e \<le> 180"
  have "length (rstrip SEPS (take (180 - length e) t)) \<le> 180 - length e"
    using rstrip_length [of SEPS "take (180 - length e) t"] by simp
  with e show ?thesis
    by (auto simp: truncate_if_needed_def MAX_FILENAME_LENGTH_def Let_def slice_to_def nat_diff_distrib')
qed

lemma truncate_if_needed_grammar:
  assumes t: "base_grammar t" and e: "length e \<le> 179"
  shows "base_grammar (truncate_if_needed t e) \<and> set (truncate_if_needed t e) \<subseteq> set t \<and>
         (truncate_if_needed t e \<noteq> t \<longrightarrow> 179 - length e \<le> length (truncate_if_needed t e))"
proof (cases "int (length t) > MAX_FILENAME_LENGTH - int (length e)")
  case False
  then show ?thesis using t by (simp add: truncate_if_needed_def)
next
  case True
  define m where "m = 180 - length e"
  have m: "1 \<le> m" "m < length t" using e True by (auto simp: m_def MAX_FILENAME_LENGTH_def)
  have eq: "truncate_if_needed t e = rstrip SEPS (take m t)"
    using True e by (simp add: truncate_if_needed_def slice_to_def m_def MAX_FILENAME_LENGTH_def nat_diff_distrib')
  have ne: "take m t \<noteq> []" using m t by (auto simp: base_grammar_def)
  have hd: "az09 (hd (take m t))" using m t by (simp add: base_grammar_def hd_take)
  have all: "list_all (\<lambda>c. az09 c \<or> is_sep c) (take m t)"
    using t by (auto simp: base_grammar_def list_all_iff dest: in_set_takeD)
  have na: "no_adjacent_seps (take m t)" using t by (simp add: base_grammar_def no_adjacent_seps_take)
  from rstrip_grammar [OF all na ne hd]
  have g: "base_grammar (rstrip SEPS (take m t))" and
       len: "length (take m t) \<le> Suc (length (rstrip SEPS (take m t)))" and
       sub: "set (rstrip SEPS (take m t)) \<subseteq> set (take m t)" by auto
  have "length (take m t) = m" using m by simp
  with len have "179 - length e \<le> length (rstrip SEPS (take m t))" by (simp add: m_def)
  moreover have "set (rstrip SEPS (take m t)) \<subseteq> set t" using sub by (auto dest: in_set_takeD)
  ultimately show ?thesis using g eq by simp
qed

subsection \<open>\<open>sanitize\<close> as a whole\<close>

lemma sanitize_unfold:
  "sanitize U x =
     truncate_if_needed
       (check_reserved_name U (sanitize_base_name U (fst (split_filename x))))
       (sanitize_extension U (snd (split_filename x)))
     @ sanitize_extension U (snd (split_filename x))"
  by (simp add: sanitize_def Let_def split: prod.splits)

lemma sanitize_length_bounded:
  "length (sanitize_extension U (snd (split_filename x))) \<le> 180 \<Longrightarrow> length (sanitize U x) \<le> 180"
  using truncate_if_needed_length by (simp add: sanitize_unfold)

lemma base_grammar_no_DOT: "base_grammar t \<Longrightarrow> DOT \<notin> set t"
  using az09_not_DOT is_sep_not_DOT by (auto simp: base_grammar_def list_all_iff)

lemma split_filename_grammar:
  assumes t: "base_grammar t" and e: "ext_grammar e"
  shows "split_filename (t @ e) = (t, e)"
proof (cases "e = []")
  case True
  then show ?thesis using t by (simp add: split_filename_no_dot base_grammar_no_DOT)
next
  case False
  with e obtain r where r: "e = DOT # r" "list_all az09 r"
    by (cases e) (auto simp: ext_grammar_def)
  have "DOT \<notin> set r" using r(2) az09_not_DOT by (auto simp: list_all_iff)
  then show ?thesis using t r(1) by (simp add: split_filename_one_dot base_grammar_no_DOT)
qed

lemma contains_pair_seps:
  "no_adjacent_seps t \<Longrightarrow> is_sep a \<Longrightarrow> is_sep b \<Longrightarrow> \<not> contains [a, b] t"
  by (induction t rule: no_adjacent_seps.induct) auto

lemma base_grammar_low_ascii: "base_grammar t \<Longrightarrow> list_all low_ascii t"
  using az09_low_ascii is_sep_low_ascii by (auto simp: base_grammar_def list_all_iff)

lemma ext_grammar_low_ascii: "ext_grammar e \<Longrightarrow> list_all low_ascii e"
proof (cases e)
  case Nil
  then show ?thesis by simp
next
  case (Cons c r)
  assume "ext_grammar e"
  with Cons have "c = DOT" "list_all az09 r" by (auto simp: ext_grammar_def)
  then show ?thesis using Cons az09_low_ascii DOT_low_ascii by (auto simp: list_all_iff)
qed

lemma ext_grammar_pattern: "ext_grammar e \<Longrightarrow> e \<noteq> [] \<Longrightarrow> ext_pattern e"
proof -
  assume e: "ext_grammar e" and ne: "e \<noteq> []"
  then obtain r where r: "e = DOT # r" "r \<noteq> []" "list_all az09 r"
    by (cases e) (auto simp: ext_grammar_def)
  have tw: "takeWhile az09 r = r" using r(3) by (simp add: list_all_iff)
  have dw: "dropWhile az09 r = []" using r(3) by (simp add: list_all_iff)
  show ?thesis by (simp add: ext_pattern_def r tw dw)
qed

lemma base_grammar_pattern:
  "base_grammar t \<Longrightarrow> base_pattern_long t \<or> base_pattern_single t"
proof -
  assume t: "base_grammar t"
  show ?thesis
  proof (cases "length t = 1")
    case True
    then show ?thesis using t by (simp add: base_pattern_single_def base_grammar_def)
  next
    case False
    moreover have "length t \<noteq> 0" using t by (simp add: base_grammar_def)
    ultimately have l: "2 \<le> length t" by arith
    have "set (butlast (tl t)) \<subseteq> set t"
      by (cases t) (auto dest: in_set_butlastD)
    then have "list_all (\<lambda>c. az09 c \<or> c = UNDERSCORE \<or> c = HYPHEN) (butlast (tl t))"
      using t by (auto simp: base_grammar_def list_all_iff is_sep_def)
    then show ?thesis using l t by (simp add: base_pattern_long_def base_grammar_def)
  qed
qed

lemma is_safe_filename_grammar:
  assumes U: "unicode_ok U" and t: "base_grammar t" and e: "ext_grammar e"
    and len: "length (t @ e) \<le> 180"
  shows "is_safe_filename U (t @ e)"
proof -
  have "list_all low_ascii (t @ e)"
    using t e by (simp add: base_grammar_low_ascii ext_grammar_low_ascii)
  then have 1: "lower U (t @ e) = t @ e" by (simp add: lower_low_ascii U)
  have 2: "split_filename (t @ e) = (t, e)" using t e by (rule split_filename_grammar)
  have 3: "e \<noteq> [] \<longrightarrow> match_dollar ext_pattern e"
    using e by (simp add: match_dollar_def ext_grammar_pattern)
  have 4: "match_dollar base_pattern_long t \<or> match_dollar base_pattern_single t"
    using base_grammar_pattern [OF t] by (auto simp: match_dollar_def)
  have na: "no_adjacent_seps t" using t by (simp add: base_grammar_def)
  have 5: "\<not> contains (py ''--'') t" "\<not> contains (py ''__'') t"
          "\<not> contains (py ''-_'') t" "\<not> contains (py ''_-'') t"
    using contains_pair_seps [OF na] by (simp_all add: py_def is_sep_def HYPHEN_def UNDERSCORE_def)
  have 6: "\<not> int (length (t @ e)) > MAX_FILENAME_LENGTH" using len by (simp add: MAX_FILENAME_LENGTH_def)
  show ?thesis
    unfolding is_safe_filename_def 1 2 using 3 4 5 6 by auto
qed

lemma sanitize_is_safe_bounded:
  assumes U: "unicode_ok U"
    and len: "length (sanitize_extension U (snd (split_filename x))) \<le> 179"
  shows "is_safe_filename U (sanitize U x)"
proof -
  define se where "se = sanitize_extension U (snd (split_filename x))"
  define rb where "rb = check_reserved_name U (sanitize_base_name U (fst (split_filename x)))"
  have e: "ext_grammar se" unfolding se_def by (rule sanitize_extension_grammar)
  have "base_grammar rb" unfolding rb_def
    by (rule check_reserved_name_grammar) (rule sanitize_base_name_strict)
  then have t: "base_grammar (truncate_if_needed rb se)"
    using len truncate_if_needed_grammar [of rb se] by (simp add: se_def)
  have l: "length (truncate_if_needed rb se @ se) \<le> 180"
    using len truncate_if_needed_length [of se rb] by (simp add: se_def)
  have "sanitize U x = truncate_if_needed rb se @ se"
    by (simp add: sanitize_unfold rb_def se_def)
  then show ?thesis using is_safe_filename_grammar [OF U t e l] by simp
qed

lemma RESERVED_NAMES_short: "n \<in> set RESERVED_NAMES \<Longrightarrow> length n \<le> 4"
  by (auto simp: RESERVED_NAMES_def py_def)

lemma sanitize_idempotent_bounded:
  assumes U: "unicode_ok U"
    and nr: "sanitize_base_name U (fst (split_filename x)) \<notin> set RESERVED_NAMES"
    and len: "length (sanitize_extension U (snd (split_filename x))) \<le> 174"
  shows "sanitize U (sanitize U x) = sanitize U x"
proof -
  define se where "se = sanitize_extension U (snd (split_filename x))"
  define sb where "sb = sanitize_base_name U (fst (split_filename x))"
  define tb where "tb = truncate_if_needed sb se"
  have e: "ext_grammar se" unfolding se_def by (rule sanitize_extension_grammar)
  have sb: "strict_base sb" unfolding sb_def by (rule sanitize_base_name_strict)
  have "sb \<notin> set RESERVED_NAMES" using nr by (simp add: sb_def)
  then have rb: "check_reserved_name U sb = sb"
    by (simp add: check_reserved_name_ok [OF U sb])
  have y: "sanitize U x = tb @ se"
    by (simp add: sanitize_unfold tb_def rb [unfolded sb_def] se_def sb_def)
  have len': "length se \<le> 179" using len by (simp add: se_def)
  from truncate_if_needed_grammar [OF _ len', of sb] sb
  have g: "base_grammar tb" and sub: "set tb \<subseteq> set sb"
    and big: "tb \<noteq> sb \<longrightarrow> 179 - length se \<le> length tb"
    by (auto simp: tb_def strict_base_iff)
  have tb: "strict_base tb" using g sub sb by (auto simp: strict_base_iff)
  have sp: "split_filename (tb @ se) = (tb, se)" using g e by (rule split_filename_grammar)
  have 1: "sanitize_base_name U tb = tb" using U tb by (rule sanitize_base_name_fixed)
  have 2: "sanitize_extension U se = se" using U e by (rule sanitize_extension_fixed)
  have "tb \<notin> set RESERVED_NAMES"
  proof (cases "tb = sb")
    case True
    then show ?thesis using nr by (simp add: sb_def)
  next
    case False
    with big len have "5 \<le> length tb" by (simp add: se_def)
    then show ?thesis using RESERVED_NAMES_short [of tb] by auto
  qed
  then have 3: "check_reserved_name U tb = tb" by (simp add: check_reserved_name_ok [OF U tb])
  have "length tb + length se \<le> 180"
    using truncate_if_needed_length [of se sb] len' by (simp add: tb_def)
  then have 4: "truncate_if_needed tb se = tb"
    by (simp add: truncate_if_needed_def MAX_FILENAME_LENGTH_def)
  have "sanitize U (tb @ se) = tb @ se" by (simp add: sanitize_unfold sp 1 2 3 4)
  then show ?thesis by (simp add: y)
qed

subsection \<open>Evaluations of the sanitizer\<close>

lemma basic_unicode_ok: "unicode_ok basic_unicode"
  by (simp add: unicode_ok_def basic_unicode_def)

lemma sanitize_long_extension_name: "sanitize basic_unicode long_extension_name = DOT # replicate 200 98"
  unfolding long_extension_name_def by code_simp

lemma unsafe_long_extension_name: "\<not> is_safe_filename basic_unicode (sanitize basic_unicode long_extension_name)"
  unfolding long_extension_name_def by code_simp

lemma sanitize_CON: "sanitize basic_unicode (py ''CON.txt'') = py ''file_con.txt''"
  by code_simp
lemma sanitize_file_con: "sanitize basic_unicode (py ''file_con.txt'') = py ''file-con.txt''"
  by code_simp

lemma collision_long_extension: "add_collision_suffix (\<lambda>_. Inr d) [] (DOT # replicate 200 98) long_extension_name
   = Inr (py ''--'' @ take 8 d @ DOT # replicate 200 98)"
  by (simp add: add_collision_suffix_def Let_def MAX_FILENAME_LENGTH_def slice_to_def rstrip_def)

subsection \<open>Conforming runtimes agree on plain text\<close>

lemma plain_subset: "list_all plain s \<Longrightarrow> set t \<subseteq> set s \<Longrightarrow> list_all plain t"
  by (auto simp: list_all_iff)

lemma lower_nfkc_plain:
  "unicode_ok U \<Longrightarrow> list_all plain s \<Longrightarrow> lower U (nfkc U s) = map ascii_lower s"
  by (simp add: unicode_ok_def)

lemma sanitize_base_name_plain:
  assumes U: "unicode_ok U" and s: "list_all plain s"
  shows "sanitize_base_name U s = sanitize_base_name basic_unicode s"
proof -
  have "lower U (nfkc U s) = lower basic_unicode (nfkc basic_unicode s)"
    using s by (simp add: lower_nfkc_plain [OF U] lower_nfkc_plain [OF basic_unicode_ok])
  then show ?thesis by (simp add: sanitize_base_name_def normalize_unicode_def)
qed

lemma sanitize_extension_plain:
  assumes U: "unicode_ok U" and s: "list_all plain s"
  shows "sanitize_extension U s = sanitize_extension basic_unicode s"
proof -
  have "set (lstrip [DOT] s) \<subseteq> set s" unfolding lstrip_def by (auto dest: set_dropWhileD)
  with s have "list_all plain (lstrip [DOT] s)" by (rule plain_subset)
  then have "lower U (lstrip [DOT] s) = lower basic_unicode (lstrip [DOT] s)"
    using U basic_unicode_ok by (simp add: unicode_ok_def)
  then show ?thesis by (simp add: sanitize_extension_def)
qed

lemma check_reserved_name_plain:
  "unicode_ok U \<Longrightarrow> strict_base t \<Longrightarrow> check_reserved_name U t = check_reserved_name basic_unicode t"
  by (simp add: check_reserved_name_ok basic_unicode_ok)

lemma sanitize_plain:
  assumes U: "unicode_ok U" and x: "list_all plain x"
  shows "sanitize U x = sanitize basic_unicode x"
proof -
  have b: "list_all plain (fst (split_filename x))" and e: "list_all plain (snd (split_filename x))"
    using x split_filename_parts [of x] by (auto intro: plain_subset)
  show ?thesis
    unfolding sanitize_unfold
    by (simp add: sanitize_base_name_plain [OF U b] sanitize_extension_plain [OF U e]
                  check_reserved_name_plain [OF U sanitize_base_name_strict])
qed



lemma sanitize_my_file: "sanitize basic_unicode (py ''My File (2023).TXT'') = py ''my-file-2023.txt''"
  by code_simp
lemma sanitize_cafe: "sanitize basic_unicode cafe_jpg = py ''cafe.jpg''"
  unfolding cafe_jpg_def by code_simp
lemma split_archive_tar_gz: "split_filename (py ''archive.tar.gz'') = (py ''archive'', py ''.tar.gz'')"
  by code_simp
lemma split_file_con: "split_filename (py ''file_con.txt'') = (py ''file_con'', py ''.txt'')"
  by code_simp

lemma plain_my_file: "list_all plain (py ''My File (2023).TXT'')"
  by (simp add: py_def plain_def)
lemma plain_cafe: "list_all plain cafe_jpg"
  by (simp add: cafe_jpg_def py_def plain_def)
lemma plain_CON: "list_all plain (py ''CON.txt'')"
  by (simp add: py_def plain_def)



section \<open>Lemmas about the orchestrator and the path predicate\<close>

subsection \<open>Evaluations for the two files\<close>

lemma sanitize_My_File: "sanitize basic_unicode (py ''My File.txt'') = py ''my-file.txt''"
  by code_simp
lemma sanitize_my_file2: "sanitize basic_unicode (py ''my  file.txt'') = py ''my-file.txt''"
  by code_simp
lemma unsafe_My_File: "\<not> is_safe_filename basic_unicode (py ''My File.txt'')"
  by code_simp
lemma unsafe_my_file2: "\<not> is_safe_filename basic_unicode (py ''my  file.txt'')"
  by code_simp
lemma not_system_My_File: "\<not> is_system_file (py ''My File.txt'')"
  by code_simp
lemma not_system_my_file2: "\<not> is_system_file (py ''my  file.txt'')"
  by code_simp
lemma split_my_file_new: "split_filename (py ''my-file.txt'') = (py ''my-file'', py ''.txt'')"
  by code_simp

subsection \<open>\<open>rename_file\<close> and the batch loop\<close>

lemma rename_file_no_Exception: "fst (rename_file U h B f dry w) \<noteq> Inl (Exception m)"
  by (simp add: rename_file_def split: prod.splits sum.splits exn.splits)


lemma rename_file_propagates:
  "rename_file_try U h B f dry w = (Inl (BaseException m), w1) \<Longrightarrow>
   rename_file U h B f dry w = (Inl (BaseException m), w1)"
  by (simp add: rename_file_def)

lemma execute_rename_original_path:
  "execute_rename B f fn safe new w = (Inr r, w') \<Longrightarrow> original_path r = f"
  by (auto simp: execute_rename_def RenameResult_success_def split: prod.splits sum.splits)

lemma rename_file_try_original_path:
  "rename_file_try U h B f dry w = (Inr r, w') \<Longrightarrow> original_path r = f"
  by (auto simp: rename_file_try_def Let_def RenameResult_success_def RenameResult_skipped_def
           dest: execute_rename_original_path split: sum.splits if_splits)

lemma rename_file_original_path:
  "rename_file U h B f dry w = (Inr r, w') \<Longrightarrow> original_path r = f"
  by (auto simp: rename_file_def RenameResult_failure_def
           dest: rename_file_try_original_path split: prod.splits sum.splits exn.splits)

lemma rename_loop_shift:
  "rename_loop U h B dry fs acc w = ((x, rs), w') \<Longrightarrow>
   rename_loop U h B dry fs (a @ acc) w = ((x, a @ rs), w')"
proof (induction fs arbitrary: acc w)
  case Nil
  then show ?case by simp
next
  case (Cons f fs)
  obtain res w1 where r: "rename_file U h B f dry w = (res, w1)"
    by (cases "rename_file U h B f dry w")
  show ?case
  proof (cases res)
    case (Inl e)
    with r Cons.prems show ?thesis by simp
  next
    case (Inr result)
    with r Cons.prems have "rename_loop U h B dry fs (acc @ [result]) w1 = ((x, rs), w')" by simp
    then have "rename_loop U h B dry fs (a @ acc @ [result]) w1 = ((x, a @ rs), w')"
      by (rule Cons.IH)
    with r Inr show ?thesis by simp
  qed
qed

lemma rename_loop_append:
  "rename_loop U h B dry pre acc w = ((None, rs1), w1) \<Longrightarrow>
   rename_loop U h B dry (pre @ post) acc w = rename_loop U h B dry post rs1 w1"
proof (induction pre arbitrary: acc w)
  case Nil
  then show ?case by simp
next
  case (Cons f fs)
  obtain res w2 where r: "rename_file U h B f dry w = (res, w2)"
    by (cases "rename_file U h B f dry w")
  show ?case
  proof (cases res)
    case (Inl e)
    with r Cons.prems show ?thesis by simp
  next
    case (Inr result)
    with r Cons.prems have "rename_loop U h B dry fs (acc @ [result]) w2 = ((None, rs1), w1)"
      by simp
    then have "rename_loop U h B dry (fs @ post) (acc @ [result]) w2 =
               rename_loop U h B dry post rs1 w1"
      by (rule Cons.IH)
    with r Inr show ?thesis by simp
  qed
qed

lemma rename_loop_complete:
  "rename_loop U h B dry fs acc w = ((None, rs), w') \<Longrightarrow>
   \<exists>rs'. rs = acc @ rs' \<and> length rs' = length fs \<and> map original_path rs' = fs"
proof (induction fs arbitrary: acc w)
  case Nil
  then show ?case by simp
next
  case (Cons f fs)
  obtain res w1 where r: "rename_file U h B f dry w = (res, w1)"
    by (cases "rename_file U h B f dry w")
  show ?case
  proof (cases res)
    case (Inl e)
    with r Cons.prems show ?thesis by simp
  next
    case (Inr result)
    with r Cons.prems have "rename_loop U h B dry fs (acc @ [result]) w1 = ((None, rs), w')"
      by simp
    then obtain rs' where rs': "rs = (acc @ [result]) @ rs'" "length rs' = length fs"
      "map original_path rs' = fs"
      using Cons.IH [of "acc @ [result]" w1] by blast
    have "original_path result = f"
      using r Inr rename_file_original_path [of U h B f dry w result w1] by simp
    with rs' have "rs = acc @ (result # rs') \<and> length (result # rs') = length (f # fs) \<and>
        map original_path (result # rs') = f # fs"
      by simp
    then show ?thesis by (rule exI [where x = "result # rs'"])
  qed
qed

lemma rename_loop_no_Exception:
  "rename_loop U h B dry fs acc w = ((Some e, rs), w') \<Longrightarrow> \<exists>m. e = BaseException m"
proof (induction fs arbitrary: acc w)
  case Nil
  then show ?case by simp
next
  case (Cons f fs)
  obtain res w1 where r: "rename_file U h B f dry w = (res, w1)"
    by (cases "rename_file U h B f dry w")
  show ?case
  proof (cases res)
    case (Inl e')
    with r Cons.prems have e: "e = e'" by simp
    have "fst (rename_file U h B f dry w) \<noteq> Inl (Exception m)" for m
      by (rule rename_file_no_Exception)
    with r Inl e show ?thesis by (cases e) auto
  next
    case (Inr result)
    with r Cons.prems have "rename_loop U h B dry fs (acc @ [result]) w1 = ((Some e, rs), w')"
      by simp
    then show ?thesis by (rule Cons.IH)
  qed
qed

lemma rename_file_rename_raises:
  assumes "\<not> is_system_file (name f)" and "\<not> is_safe_filename U (name f)"
    and "handle_collision h B (parent f) (name f) (sanitize U (name f)) w = Inr safe"
    and "perform_rename B f (path_join (parent f) safe) w = (Inl (Exception m), w2)"
  shows "rename_file U h B f False w = (Inr (RenameResult_failure f m), w2)"
  using assms by (simp add: rename_file_def rename_file_try_def execute_rename_def Let_def)


subsection \<open>The collision suffix and the runs of the batch\<close>

lemma length_py: "length (py s) = length s"
  by (simp add: py_def)

lemma add_collision_suffix_short:
  assumes "h n = Inr d" and "length b + length e \<le> 170"
  shows "add_collision_suffix h b e n = Inr (b @ py ''--'' @ take 8 d @ e)"
proof -
  have "\<not> int (length b) >
          MAX_FILENAME_LENGTH - int (length e) - int (length (py ''--'' @ take 8 d))"
    using assms(2) by (simp add: MAX_FILENAME_LENGTH_def length_py)
  then show ?thesis using assms(1) by (simp add: add_collision_suffix_def Let_def)
qed

lemma batch_with_failure:
  "rename_directory basic_unicode (\<lambda>_. Inr d) (mem_backend (Some my_file)) dir_d True False [my_file, my_file2] =
     (Inr [RenameResult_failure my_file (py ''Local rename failed''),
           RenameResult_success my_file2 my_file_new (meta_json_path my_file_new)],
      [my_file, my_file_new])"
  by code_simp

lemma first_file_renamed:
  "rename_file basic_unicode (\<lambda>_. Inr d) (mem_backend None) my_file False [my_file, my_file2] =
     (Inr (RenameResult_success my_file my_file_new (meta_json_path my_file_new)), [my_file_new, my_file2])"
  by code_simp

lemma my_file_names_differ: "py ''my-file.txt'' \<noteq> py ''my  file.txt''"
  by (simp add: py_def)

lemma second_file_collides:
  "rename_file basic_unicode (\<lambda>_. Inr d) (mem_backend None) my_file2 False [my_file_new, my_file2] =
     (Inr (RenameResult_success my_file2 (my_file_new_suffixed d) (meta_json_path (my_file_new_suffixed d))),
      [my_file_new, my_file_new_suffixed d])"
  by (simp add: rename_file_def rename_file_try_def Let_def my_file2_def not_system_my_file2 unsafe_my_file2 sanitize_my_file2 split_my_file_new
        handle_collision_def mem_backend_def path_join_def my_file_new_def my_file_names_differ
        add_collision_suffix_short length_py execute_rename_def FileMetadata_def
        my_file_new_suffixed_def)

lemma batch_without_failure:
  "rename_directory basic_unicode (\<lambda>_. Inr d) (mem_backend None) dir_d True False [my_file, my_file2] =
     (Inr [RenameResult_success my_file my_file_new (meta_json_path my_file_new),
           RenameResult_success my_file2 (my_file_new_suffixed d) (meta_json_path (my_file_new_suffixed d))],
      [my_file_new, my_file_new_suffixed d])"
proof -
  have "list_files (mem_backend None) dir_d True [my_file, my_file2] = Inr [my_file, my_file2]"
    by (simp add: mem_backend_def)
  then show ?thesis by (simp add: rename_directory_def first_file_renamed second_file_collides)
qed

lemma my_file_fields: "name my_file = py ''My File.txt''" "parent my_file = py ''d''"
  by (simp_all add: my_file_def)

lemma second_file_after_failure:
  "rename_loop basic_unicode (\<lambda>_. Inr d) (mem_backend (Some my_file)) False [my_file2] [] [my_file, my_file2] =
     ((None, [RenameResult_success my_file2 my_file_new (meta_json_path my_file_new)]), [my_file, my_file_new])"
  by code_simp

lemma handle_collision_frame:
  "handle_collision h (B\<lparr>perform_rename := pr, compute_hash := ch, get_file_size := gs,
      write_sidecar := ws\<rparr>) dir fn safe w = handle_collision h B dir fn safe w"
  by (simp add: handle_collision_def)

lemma rename_file_try_dry:
  "rename_file_try U h B f True w =
     (if is_system_file (name f) then Inr (RenameResult_skipped f (py ''System file''))
      else if is_safe_filename U (name f) then Inr (RenameResult_skipped f (py ''Already safe''))
      else (case handle_collision h B (parent f) (name f) (sanitize U (name f)) w of
              Inl e \<Rightarrow> Inl e
            | Inr safe \<Rightarrow> Inr (RenameResult_success f (path_join (parent f) safe)
                              (meta_json_path (path_join (parent f) safe)))),
      w)"
  by (simp add: rename_file_try_def Let_def split: sum.splits)

lemma add_collision_suffix_room:
  assumes d: "h n = Inr d" and e: "length e \<le> 170"
  shows "add_collision_suffix h b e n =
     Inr ((if 180 < length b + (2 + min 8 (length d)) + length e
           then rstrip SEPS (take (180 - length e - (2 + min 8 (length d))) b)
           else b) @ py ''--'' @ take 8 d @ e)"
proof -
  define s where "s = py ''--'' @ take 8 d"
  have ls: "length s = 2 + min 8 (length d)" by (simp add: s_def length_py min.commute)
  define k where "k = 180 - length e - (2 + min 8 (length d))"
  have kk: "MAX_FILENAME_LENGTH - int (length e) - int (length s) = int k"
    using e by (simp add: k_def ls MAX_FILENAME_LENGTH_def)
  have sl: "slice_to b (int k) = take k b" by (simp add: slice_to_def)
  have gt: "int (length b) > int k \<longleftrightarrow> 180 < length b + (2 + min 8 (length d)) + length e"
    using e by (auto simp: k_def)
  have "add_collision_suffix h b e n =
      Inr ((if int (length b) > MAX_FILENAME_LENGTH - int (length e) - int (length s)
            then rstrip SEPS
                   (slice_to b (MAX_FILENAME_LENGTH - int (length e) - int (length s)))
            else b) @ s @ e)"
    using d by (simp add: add_collision_suffix_def Let_def s_def)
  then show ?thesis
    unfolding kk sl gt by (simp add: s_def k_def)
qed

lemma add_collision_suffix_length_bounded:
  assumes "add_collision_suffix h b e n = Inr r" and "length e \<le> 170"
  shows "length r \<le> 180"
proof -
  obtain d where d: "h n = Inr d"
    using assms(1) by (cases "h n") (auto simp: add_collision_suffix_def)
  define s where "s = py ''--'' @ take 8 d"
  have ls: "length s \<le> 10" by (simp add: s_def length_py)
  define k where "k = nat (MAX_FILENAME_LENGTH - int (length e) - int (length s))"
  have kk: "MAX_FILENAME_LENGTH - int (length e) - int (length s) = int k"
    using assms(2) ls by (simp add: k_def MAX_FILENAME_LENGTH_def)
  have sl: "slice_to b (int k) = take k b" by (simp add: slice_to_def)
  define b1 where "b1 = (if int (length b) > int k then rstrip SEPS (take k b) else b)"
  have "add_collision_suffix h b e n =
      Inr ((if int (length b) > MAX_FILENAME_LENGTH - int (length e) - int (length s)
            then rstrip SEPS
                   (slice_to b (MAX_FILENAME_LENGTH - int (length e) - int (length s)))
            else b) @ s @ e)"
    using d by (simp add: add_collision_suffix_def Let_def s_def)
  then have "add_collision_suffix h b e n = Inr (b1 @ s @ e)"
    unfolding kk sl b1_def .
  then have r: "r = b1 @ s @ e" using assms(1) by simp
  have "length (rstrip SEPS (take k b)) \<le> k"
    using rstrip_length [of SEPS "take k b"] by simp
  then have b1: "length b1 \<le> k" by (simp add: b1_def)
  have "int k + int (length s) + int (length e) = 180"
    using kk by (simp add: MAX_FILENAME_LENGTH_def)
  then have "k + length s + length e = 180" by linarith
  with b1 show ?thesis by (simp add: r)
qed

subsection \<open>\<open>is_remote_path\<close>\<close>

lemma remote_tail_iff:
  "remote_tail W r \<longleftrightarrow>
     (\<exists>body rest. r = body @ 58 # rest \<and> list_all (\<lambda>x. W x \<or> x = HYPHEN) body \<and> not_slash_next rest)"
proof (induction r)
  case Nil
  then show ?case by simp
next
  case (Cons x t)
  show ?case
  proof
    assume "remote_tail W (x # t)"
    then consider "x = 58 \<and> not_slash_next t" | "(W x \<or> x = HYPHEN) \<and> remote_tail W t" by auto
    then show "\<exists>body rest. x # t = body @ 58 # rest \<and> list_all (\<lambda>x. W x \<or> x = HYPHEN) body \<and> not_slash_next rest"
    proof cases
      case 1
      then have "x # t = [] @ 58 # t \<and> list_all (\<lambda>x. W x \<or> x = HYPHEN) [] \<and> not_slash_next t" by simp
      then show ?thesis by blast
    next
      case 2
      with Cons.IH obtain body rest where
        b: "t = body @ 58 # rest" "list_all (\<lambda>x. W x \<or> x = HYPHEN) body" "not_slash_next rest" by blast
      with 2 have "x # t = (x # body) @ 58 # rest \<and> list_all (\<lambda>x. W x \<or> x = HYPHEN) (x # body) \<and> not_slash_next rest"
        by simp
      then show ?thesis by blast
    qed
  next
    assume "\<exists>body rest. x # t = body @ 58 # rest \<and> list_all (\<lambda>x. W x \<or> x = HYPHEN) body \<and> not_slash_next rest"
    then obtain body rest where
      b: "x # t = body @ 58 # rest" "list_all (\<lambda>x. W x \<or> x = HYPHEN) body" "not_slash_next rest" by blast
    show "remote_tail W (x # t)"
    proof (cases body)
      case Nil
      with b show ?thesis by simp
    next
      case (Cons y ys)
      with b have "t = ys @ 58 # rest" "list_all (\<lambda>x. W x \<or> x = HYPHEN) ys" "W x \<or> x = HYPHEN" by auto
      with b(3) Cons.IH show ?thesis by auto
    qed
  qed
qed

lemma word_ok_ascii: "word_ok W \<Longrightarrow> c < 128 \<Longrightarrow> W c = ascii_word c"
  by (simp add: word_ok_def)

section \<open>The claims\<close>

text \<open>
  Claim C1 says that \<open>sanitize\<close> never returns more than 180 characters and that the
  bound also holds after \<open>add_collision_suffix\<close>. The code truncates the base only: on
  the name \<^verbatim>\<open>"a." + "b" * 200\<close> the maximal base length is negative, the slice removes the
  whole base, and \<open>sanitize\<close> returns the extension alone, 201 characters. With the parts
  that \<open>rename_file\<close> passes on a collision (the split of that result) the suffixed name
  is longer still, whatever the digest \<open>d\<close>. The lemmas \<open>sanitize_length_bounded\<close> and
  \<open>add_collision_suffix_length_bounded\<close> give the bound where the extension leaves room.
\<close>

theorem sanitize_exceeds_limit_on_long_extension:
  "sanitize basic_unicode long_extension_name = DOT # replicate 200 98 \<and>
   length (sanitize basic_unicode long_extension_name) = 201 \<and>
   split_filename (sanitize basic_unicode long_extension_name) = ([], DOT # replicate 200 98) \<and>
   add_collision_suffix (\<lambda>_. Inr d) [] (DOT # replicate 200 98) long_extension_name =
     Inr (py ''--'' @ take 8 d @ DOT # replicate 200 98) \<and>
   180 < length (py ''--'' @ take 8 d @ DOT # replicate 200 98)"
proof -
  have "DOT \<notin> set (replicate 200 (98::nat))" by (simp add: DOT_def)
  then have "split_filename ([] @ DOT # replicate 200 98) = ([], DOT # replicate 200 98)"
    by (intro split_filename_one_dot) simp_all
  then show ?thesis
    by (simp add: sanitize_long_extension_name collision_long_extension)
qed

text \<open>
  Claim C2 says that \<open>sanitize\<close> is idempotent. Amended: \<open>sanitize (sanitize x) = sanitize x\<close>
  for every name whose sanitized extension has at most 179 characters and for which the
  base of \<open>sanitize x\<close> has no underscore and is not a reserved device name.
\<close>

theorem sanitize_idempotent_unless_reserved:
  assumes U: "unicode_ok U"
    and len: "length (sanitize_extension U (snd (split_filename x))) \<le> 179"
    and us: "UNDERSCORE \<notin> set (fst (split_filename (sanitize U x)))"
    and nr: "fst (split_filename (sanitize U x)) \<notin> set RESERVED_NAMES"
  shows "sanitize U (sanitize U x) = sanitize U x"
proof -
  define se where "se = sanitize_extension U (snd (split_filename x))"
  define rb where "rb = check_reserved_name U (sanitize_base_name U (fst (split_filename x)))"
  define tb where "tb = truncate_if_needed rb se"
  have e: "ext_grammar se" unfolding se_def by (rule sanitize_extension_grammar)
  have "base_grammar rb" unfolding rb_def
    by (rule check_reserved_name_grammar) (rule sanitize_base_name_strict)
  then have g: "base_grammar tb"
    using len truncate_if_needed_grammar [of rb se] by (simp add: se_def tb_def)
  have y: "sanitize U x = tb @ se"
    by (simp add: sanitize_unfold tb_def rb_def se_def)
  have sp: "split_filename (tb @ se) = (tb, se)" using g e by (rule split_filename_grammar)
  have tb: "strict_base tb" using g us by (simp add: strict_base_iff y sp)
  have 1: "sanitize_base_name U tb = tb" using U tb by (rule sanitize_base_name_fixed)
  have 2: "sanitize_extension U se = se" using U e by (rule sanitize_extension_fixed)
  have "tb \<notin> set RESERVED_NAMES" using nr by (simp add: y sp)
  then have 3: "check_reserved_name U tb = tb" by (simp add: check_reserved_name_ok [OF U tb])
  have "length tb + length se \<le> 180"
    using truncate_if_needed_length [of se rb] len by (simp add: tb_def se_def)
  then have 4: "truncate_if_needed tb se = tb"
    by (simp add: truncate_if_needed_def MAX_FILENAME_LENGTH_def)
  have "sanitize U (tb @ se) = tb @ se" by (simp add: sanitize_unfold sp 1 2 3 4)
  then show ?thesis by (simp add: y)
qed

text \<open>The witness of C2, at \<^verbatim>\<open>"My File (2023).TXT"\<close>.\<close>

theorem sanitize_idempotent_unless_reserved_witness:
  "unicode_ok basic_unicode \<and>
   length (sanitize_extension basic_unicode (snd (split_filename (py ''My File (2023).TXT'')))) \<le> 179 \<and>
   UNDERSCORE \<notin> set (fst (split_filename (sanitize basic_unicode (py ''My File (2023).TXT'')))) \<and>
   fst (split_filename (sanitize basic_unicode (py ''My File (2023).TXT''))) \<notin> set RESERVED_NAMES \<and>
   sanitize basic_unicode (sanitize basic_unicode (py ''My File (2023).TXT'')) =
     sanitize basic_unicode (py ''My File (2023).TXT'')"
proof -
  have 1: "length (sanitize_extension basic_unicode
     (snd (split_filename (py ''My File (2023).TXT'')))) \<le> 179"
    by code_simp
  have 2: "UNDERSCORE \<notin> set (fst (split_filename (sanitize basic_unicode (py ''My File (2023).TXT''))))"
    by code_simp
  have 3: "fst (split_filename (sanitize basic_unicode (py ''My File (2023).TXT'')))
     \<notin> set RESERVED_NAMES"
    by code_simp
  show ?thesis
    using sanitize_idempotent_unless_reserved [OF basic_unicode_ok 1 2 3] basic_unicode_ok 1 2 3
    by simp
qed

text \<open>
  The counterexample of C2: \<^verbatim>\<open>"CON.txt"\<close> becomes \<^verbatim>\<open>"file_con.txt"\<close>, and a second pass turns
  the underscore of the prefix into a hyphen.
\<close>

theorem sanitize_not_idempotent_on_reserved:
  "sanitize basic_unicode (py ''CON.txt'') = py ''file_con.txt'' \<and>
   sanitize basic_unicode (sanitize basic_unicode (py ''CON.txt'')) = py ''file-con.txt'' \<and>
   sanitize basic_unicode (sanitize basic_unicode (py ''CON.txt'')) \<noteq>
     sanitize basic_unicode (py ''CON.txt'')"
proof -
  have "py ''file-con.txt'' \<noteq> py ''file_con.txt''" by (simp add: py_def)
  then show ?thesis by (simp add: sanitize_CON sanitize_file_con)
qed

text \<open>
  Claim C3 says that \<open>sanitize x\<close> always satisfies \<open>is_safe_filename\<close>. On the name
  \<^verbatim>\<open>"a." + "b" * 200\<close> the result has an empty base and 201 characters, and
  \<open>is_safe_filename\<close> rejects it. The lemma \<open>sanitize_is_safe_bounded\<close> gives the claim for
  every name whose sanitized extension has at most 179 characters.
\<close>

theorem sanitize_output_unsafe_on_long_extension:
  "\<not> is_safe_filename basic_unicode (sanitize basic_unicode long_extension_name) \<and>
   fst (split_filename (sanitize basic_unicode long_extension_name)) = [] \<and>
   int (length (sanitize basic_unicode long_extension_name)) > MAX_FILENAME_LENGTH"
proof -
  have "DOT \<notin> set (replicate 200 (98::nat))" by (simp add: DOT_def)
  then have "split_filename ([] @ DOT # replicate 200 98) = ([], DOT # replicate 200 98)"
    by (intro split_filename_one_dot) simp_all
  then show ?thesis
    using unsafe_long_extension_name
    by (simp add: sanitize_long_extension_name MAX_FILENAME_LENGTH_def)
qed

text \<open>
  Claim C4 says that the name \<open>add_collision_suffix\<close> returns is a function of the
  original name only. Amended, for a digest \<open>d\<close> of the original name: when base, \<^verbatim>\<open>--\<close>,
  the first eight characters of \<open>d\<close> and the extension fit in 180 characters, the result
  is exactly these four parts; when they do not fit and the extension has at most 170
  characters, the base is cut to the characters that are left and loses its trailing
  separators; an exception of the digest is passed on; and on a collision \<open>rename_file\<close>
  takes \<open>add_collision_suffix\<close> of the split of \<open>sanitize\<close> of the file name and of the
  file name itself, which the backend, the directory and the state do not enter.
\<close>

theorem collision_suffix_from_original_name:
  "(\<forall>d. h n = Inr d \<and> length b + (2 + min 8 (length d)) + length e \<le> 180 \<longrightarrow>
      add_collision_suffix h b e n = Inr (b @ py ''--'' @ take 8 d @ e)) \<and>
   (\<forall>d. h n = Inr d \<and> length e \<le> 170 \<and> 180 < length b + (2 + min 8 (length d)) + length e \<longrightarrow>
      add_collision_suffix h b e n =
        Inr (rstrip SEPS (take (180 - length e - (2 + min 8 (length d))) b) @
             py ''--'' @ take 8 d @ e)) \<and>
   (\<forall>x. h n = Inl x \<longrightarrow> add_collision_suffix h b e n = Inl x) \<and>
   (file_exists B (path_join dir (sanitize U n)) w = Inr True \<longrightarrow>
      handle_collision h B dir n (sanitize U n) w =
        add_collision_suffix h (fst (split_filename (sanitize U n)))
          (snd (split_filename (sanitize U n))) n)"
proof -
  have 1: "add_collision_suffix h b e n = Inr (b @ py ''--'' @ take 8 d @ e)"
    if d: "h n = Inr d" and fit: "length b + (2 + min 8 (length d)) + length e \<le> 180" for d
  proof -
    have "length (py ''--'' @ take 8 d) = 2 + min 8 (length d)"
      by (simp add: length_py min.commute)
    then have "\<not> int (length b) >
        MAX_FILENAME_LENGTH - int (length e) - int (length (py ''--'' @ take 8 d))"
      using fit by (simp add: MAX_FILENAME_LENGTH_def)
    then show ?thesis using d by (simp add: add_collision_suffix_def Let_def)
  qed
  have 2: "add_collision_suffix h b e n =
        Inr (rstrip SEPS (take (180 - length e - (2 + min 8 (length d))) b) @
             py ''--'' @ take 8 d @ e)"
    if "h n = Inr d" "length e \<le> 170" "180 < length b + (2 + min 8 (length d)) + length e" for d
    using that by (simp add: add_collision_suffix_room)
  have 3: "add_collision_suffix h b e n = Inl x" if "h n = Inl x" for x
    using that by (simp add: add_collision_suffix_def)
  have 4: "handle_collision h B dir n (sanitize U n) w =
        add_collision_suffix h (fst (split_filename (sanitize U n)))
          (snd (split_filename (sanitize U n))) n"
    if "file_exists B (path_join dir (sanitize U n)) w = Inr True"
    using that by (simp add: handle_collision_def split: prod.splits)
  show ?thesis using 1 2 3 4 by blast
qed

text \<open>
  The witness of C4: a base that fits, a base of 200 characters that is cut to 166, and
  the second file of the directory when the destination is occupied.
\<close>

theorem collision_suffix_from_original_name_witness:
  "add_collision_suffix (\<lambda>_. Inr (py ''0123456789abcdef'')) (py ''my-file'') (py ''.txt'')
     (py ''my  file.txt'') = Inr (py ''my-file--01234567.txt'') \<and>
   add_collision_suffix (\<lambda>_. Inr (py ''0123456789abcdef'')) (replicate 200 97) (py ''.txt'')
     (py ''my  file.txt'') = Inr (replicate 166 97 @ py ''--01234567.txt'') \<and>
   file_exists (mem_backend None) (path_join (py ''d'') (sanitize basic_unicode (py ''my  file.txt'')))
     [my_file_new, my_file2] = Inr True \<and>
   handle_collision (\<lambda>_. Inr (py ''0123456789abcdef'')) (mem_backend None) (py ''d'')
     (py ''my  file.txt'') (sanitize basic_unicode (py ''my  file.txt'')) [my_file_new, my_file2] =
     Inr (py ''my-file--01234567.txt'')"
proof -
  define h :: digest_fn where "h = (\<lambda>_. Inr (py ''0123456789abcdef''))"
  have hn: "h n = Inr (py ''0123456789abcdef'')" for n by (simp add: h_def)
  have p: "py ''my-file'' @ py ''--'' @ take 8 (py ''0123456789abcdef'') @ py ''.txt'' =
           py ''my-file--01234567.txt''"
    by (simp add: py_def)
  have q: "rstrip SEPS (take (180 - length (py ''.txt'') -
              (2 + min 8 (length (py ''0123456789abcdef'')))) (replicate 200 97)) @
           py ''--'' @ take 8 (py ''0123456789abcdef'') @ py ''.txt'' =
           replicate 166 97 @ py ''--01234567.txt''"
    by code_simp
  have 1: "file_exists (mem_backend None)
     (path_join (py ''d'') (sanitize basic_unicode (py ''my  file.txt''))) [my_file_new, my_file2] = Inr True"
    by code_simp
  note a = collision_suffix_from_original_name
    [of h "py ''my  file.txt''" "py ''my-file''" "py ''.txt''" "mem_backend None" "py ''d''"
        basic_unicode "[my_file_new, my_file2]"]
  note b = collision_suffix_from_original_name
    [of h "py ''my  file.txt''" "replicate 200 97" "py ''.txt''" "mem_backend None" "py ''d''"
        basic_unicode "[my_file_new, my_file2]"]
  have 2: "add_collision_suffix h (py ''my-file'') (py ''.txt'') (py ''my  file.txt'') =
           Inr (py ''my-file--01234567.txt'')"
  proof -
    have "length (py ''my-file'') + (2 + min 8 (length (py ''0123456789abcdef''))) +
            length (py ''.txt'') \<le> 180"
      by (simp add: length_py)
    with a hn show ?thesis unfolding p [symmetric] by blast
  qed
  have 3: "add_collision_suffix h (replicate 200 97) (py ''.txt'') (py ''my  file.txt'') =
           Inr (replicate 166 97 @ py ''--01234567.txt'')"
  proof -
    have "length (py ''.txt'') \<le> 170 \<and>
          180 < length (replicate 200 (97::nat)) + (2 + min 8 (length (py ''0123456789abcdef''))) +
            length (py ''.txt'')"
      by (simp add: length_py)
    with b hn show ?thesis unfolding q [symmetric] by blast
  qed
  have 4: "handle_collision h (mem_backend None) (py ''d'') (py ''my  file.txt'')
             (sanitize basic_unicode (py ''my  file.txt'')) [my_file_new, my_file2] =
           Inr (py ''my-file--01234567.txt'')"
    using a 1 2 by (simp add: sanitize_my_file2 split_my_file_new)
  show ?thesis using 1 2 3 4 unfolding h_def by blast
qed

text \<open>
  The counterexample of C4: the same original name \<^verbatim>\<open>"Report.TXT"\<close> with the bases
  \<^verbatim>\<open>"report"\<close> and \<^verbatim>\<open>"report-v2"\<close> gives two names, whatever the digest \<open>d\<close>.
\<close>

theorem collision_suffix_depends_on_base:
  "\<forall>d. add_collision_suffix (\<lambda>_. Inr d) (py ''report'') (py ''.txt'') (py ''Report.TXT'') =
          Inr (py ''report'' @ py ''--'' @ take 8 d @ py ''.txt'') \<and>
       add_collision_suffix (\<lambda>_. Inr d) (py ''report-v2'') (py ''.txt'') (py ''Report.TXT'') =
          Inr (py ''report-v2'' @ py ''--'' @ take 8 d @ py ''.txt'') \<and>
       add_collision_suffix (\<lambda>_. Inr d) (py ''report'') (py ''.txt'') (py ''Report.TXT'') \<noteq>
       add_collision_suffix (\<lambda>_. Inr d) (py ''report-v2'') (py ''.txt'') (py ''Report.TXT'')"
proof
  fix d
  have 1: "add_collision_suffix (\<lambda>_. Inr d) (py ''report'') (py ''.txt'') (py ''Report.TXT'') =
          Inr (py ''report'' @ py ''--'' @ take 8 d @ py ''.txt'')"
    by (rule add_collision_suffix_short) (simp_all add: length_py)
  have 2: "add_collision_suffix (\<lambda>_. Inr d) (py ''report-v2'') (py ''.txt'') (py ''Report.TXT'') =
          Inr (py ''report-v2'' @ py ''--'' @ take 8 d @ py ''.txt'')"
    by (rule add_collision_suffix_short) (simp_all add: length_py)
  have 3: "py ''report'' @ py ''--'' @ take 8 d @ py ''.txt'' \<noteq>
           py ''report-v2'' @ py ''--'' @ take 8 d @ py ''.txt''"
  proof
    assume "py ''report'' @ py ''--'' @ take 8 d @ py ''.txt'' =
            py ''report-v2'' @ py ''--'' @ take 8 d @ py ''.txt''"
    then have "length (py ''report'' @ py ''--'' @ take 8 d @ py ''.txt'') =
               length (py ''report-v2'' @ py ''--'' @ take 8 d @ py ''.txt'')" by simp
    then show False by (simp add: length_py)
  qed
  show "add_collision_suffix (\<lambda>_. Inr d) (py ''report'') (py ''.txt'') (py ''Report.TXT'') =
          Inr (py ''report'' @ py ''--'' @ take 8 d @ py ''.txt'') \<and>
       add_collision_suffix (\<lambda>_. Inr d) (py ''report-v2'') (py ''.txt'') (py ''Report.TXT'') =
          Inr (py ''report-v2'' @ py ''--'' @ take 8 d @ py ''.txt'') \<and>
       add_collision_suffix (\<lambda>_. Inr d) (py ''report'') (py ''.txt'') (py ''Report.TXT'') \<noteq>
       add_collision_suffix (\<lambda>_. Inr d) (py ''report-v2'') (py ''.txt'') (py ''Report.TXT'')"
    using 1 2 3 by simp
qed

text \<open>
  Claim C5 says that when one file's rename raises, the batch still has one outcome per
  file, the failing file's outcome is a failure with the message, the other outcomes
  are those of a run without the failure, and \<open>rename_file\<close> never lets an exception out.
  Amended, for a rename that raises an \<open>Exception\<close> while the files before and after it
  are processed to the end: the batch has one outcome per file in listing order, the
  failing file's outcome is the failure with the message, the outcomes of the files
  before it are those of the loop from the initial state and the outcomes of the files
  after it are those of the loop from the state the failed rename leaves; \<open>rename_file\<close>
  never lets an \<open>Exception\<close> out, for any file \<open>g\<close> and state \<open>v\<close>, and it does let out an
  exception of its body that is not an \<open>Exception\<close>.
\<close>

theorem batch_continues_after_failed_rename:
  assumes listing: "list_files B directory recursive w = Inr (pre @ f # post)"
    and before: "rename_loop U h B False pre [] w = ((None, rs1), w1)"
    and reached: "\<not> is_system_file (name f)" "\<not> is_safe_filename U (name f)"
      "handle_collision h B (parent f) (name f) (sanitize U (name f)) w1 = Inr safe"
    and raises: "perform_rename B f (path_join (parent f) safe) w1 = (Inl (Exception m), w2)"
    and after: "rename_loop U h B False post [] w2 = ((None, rs3), w3)"
  shows "rename_directory U h B directory recursive False w =
           (Inr (rs1 @ RenameResult_failure f m # rs3), w3) \<and>
         length rs1 = length pre \<and> length rs3 = length post \<and>
         map original_path (rs1 @ RenameResult_failure f m # rs3) = pre @ f # post \<and>
         (\<forall>m'. fst (rename_file U h B g dry v) \<noteq> Inl (Exception m')) \<and>
         (\<forall>m' v'. rename_file_try U h B g dry v = (Inl (BaseException m'), v') \<longrightarrow>
            rename_file U h B g dry v = (Inl (BaseException m'), v'))"
proof -
  have f: "rename_file U h B f False w1 = (Inr (RenameResult_failure f m), w2)"
    using reached raises by (rule rename_file_rename_raises)
  have "rename_loop U h B False (pre @ f # post) [] w = rename_loop U h B False (f # post) rs1 w1"
    using before by (rule rename_loop_append)
  also have "\<dots> = rename_loop U h B False post (rs1 @ [RenameResult_failure f m]) w2"
    using f by simp
  also have "\<dots> = ((None, (rs1 @ [RenameResult_failure f m]) @ rs3), w3)"
    using rename_loop_shift [OF after, of "rs1 @ [RenameResult_failure f m]"] by simp
  finally have 1: "rename_directory U h B directory recursive False w =
           (Inr (rs1 @ RenameResult_failure f m # rs3), w3)"
    using listing by (simp add: rename_directory_def)
  have 2: "length rs1 = length pre" "map original_path rs1 = pre"
    using rename_loop_complete [OF before] by auto
  have 3: "length rs3 = length post" "map original_path rs3 = post"
    using rename_loop_complete [OF after] by auto
  have 4: "original_path (RenameResult_failure f m) = f"
    by (simp add: RenameResult_failure_def)
  have 5: "fst (rename_file U h B g dry v) \<noteq> Inl (Exception m')" for m'
    by (rule rename_file_no_Exception)
  have 6: "rename_file U h B g dry v = (Inl (BaseException m'), v')"
    if "rename_file_try U h B g dry v = (Inl (BaseException m'), v')" for m' v'
    using that by (rule rename_file_propagates)
  show ?thesis using 1 2 3 4 5 6 by simp
qed

text \<open>The witness of C5: the rename of the first of the two files raises.\<close>

theorem batch_continues_after_failed_rename_witness:
  "list_files (mem_backend (Some my_file)) dir_d True [my_file, my_file2] = Inr ([] @ my_file # [my_file2]) \<and>
   \<not> is_system_file (name my_file) \<and> \<not> is_safe_filename basic_unicode (name my_file) \<and>
   perform_rename (mem_backend (Some my_file)) my_file (path_join (parent my_file) (py ''my-file.txt''))
     [my_file, my_file2] = (Inl (Exception (py ''Local rename failed'')), [my_file, my_file2]) \<and>
   rename_loop basic_unicode (\<lambda>_. Inr []) (mem_backend (Some my_file)) False [my_file2] []
     [my_file, my_file2] =
     ((None, [RenameResult_success my_file2 my_file_new (meta_json_path my_file_new)]),
      [my_file, my_file_new]) \<and>
   rename_directory basic_unicode (\<lambda>_. Inr []) (mem_backend (Some my_file)) dir_d True False
     [my_file, my_file2] =
     (Inr [RenameResult_failure my_file (py ''Local rename failed''),
           RenameResult_success my_file2 my_file_new (meta_json_path my_file_new)],
      [my_file, my_file_new])"
proof -
  let ?B = "mem_backend (Some my_file)"
  let ?w = "[my_file, my_file2]"
  have 1: "list_files ?B dir_d True ?w = Inr ([] @ my_file # [my_file2])"
    by (simp add: mem_backend_def)
  have 2: "rename_loop basic_unicode (\<lambda>_. Inr []) ?B False [] [] ?w = ((None, []), ?w)" by simp
  have 3: "\<not> is_system_file (name my_file)" by (simp add: my_file_fields not_system_My_File)
  have 4: "\<not> is_safe_filename basic_unicode (name my_file)" by (simp add: my_file_fields unsafe_My_File)
  have 5: "handle_collision (\<lambda>_. Inr []) ?B (parent my_file) (name my_file)
             (sanitize basic_unicode (name my_file)) ?w = Inr (py ''my-file.txt'')"
    by code_simp
  have 6: "perform_rename ?B my_file (path_join (parent my_file) (py ''my-file.txt'')) ?w
             = (Inl (Exception (py ''Local rename failed'')), ?w)"
    by (simp add: mem_backend_def)
  note t = batch_continues_after_failed_rename [OF 1 2 3 4 5 6 second_file_after_failure, of my_file True ?w]
  show ?thesis using t 1 3 4 6 second_file_after_failure [of "[]"] by simp
qed

text \<open>
  The counterexample of C5: without the failure the second file finds its destination
  occupied by the first and gets the collision suffix; with the failure it gets the
  plain name. The outcome of the second file differs, whatever the digest \<open>d\<close>.
\<close>

theorem later_outcome_depends_on_failure:
  "\<forall>d. fst (rename_directory basic_unicode (\<lambda>_. Inr d) (mem_backend None) dir_d True False
             [my_file, my_file2]) =
        Inr [RenameResult_success my_file my_file_new (meta_json_path my_file_new),
             RenameResult_success my_file2 (my_file_new_suffixed d)
               (meta_json_path (my_file_new_suffixed d))] \<and>
       fst (rename_directory basic_unicode (\<lambda>_. Inr d) (mem_backend (Some my_file)) dir_d True False
             [my_file, my_file2]) =
        Inr [RenameResult_failure my_file (py ''Local rename failed''),
             RenameResult_success my_file2 my_file_new (meta_json_path my_file_new)] \<and>
       RenameResult_success my_file2 (my_file_new_suffixed d) (meta_json_path (my_file_new_suffixed d))
         \<noteq> RenameResult_success my_file2 my_file_new (meta_json_path my_file_new)"
proof
  fix d
  have "my_file_new_suffixed d \<noteq> my_file_new"
    by (simp add: my_file_new_suffixed_def my_file_new_def py_def)
  then show "fst (rename_directory basic_unicode (\<lambda>_. Inr d) (mem_backend None) dir_d True False
             [my_file, my_file2]) =
        Inr [RenameResult_success my_file my_file_new (meta_json_path my_file_new),
             RenameResult_success my_file2 (my_file_new_suffixed d)
               (meta_json_path (my_file_new_suffixed d))] \<and>
       fst (rename_directory basic_unicode (\<lambda>_. Inr d) (mem_backend (Some my_file)) dir_d True False
             [my_file, my_file2]) =
        Inr [RenameResult_failure my_file (py ''Local rename failed''),
             RenameResult_success my_file2 my_file_new (meta_json_path my_file_new)] \<and>
       RenameResult_success my_file2 (my_file_new_suffixed d) (meta_json_path (my_file_new_suffixed d))
         \<noteq> RenameResult_success my_file2 my_file_new (meta_json_path my_file_new)"
    by (simp add: batch_without_failure batch_with_failure RenameResult_success_def)
qed

text \<open>
  Claim C6 says that a dry run on a file that is neither a system file nor already safe
  returns a success with the would-be destination and sidecar path and calls none of
  the rename, hash, size and sidecar-write capabilities. Amended: a dry run returns the
  state unchanged and its result does not depend on those four capabilities; for such a
  file the result is that success when the probe (and, on a collision, the digest) returns
  a value, a failure with the message when one of them raises an \<open>Exception\<close>, and the
  exception itself, leaving \<open>rename_file\<close>, when one of them raises an exception that is
  not an \<open>Exception\<close>; the would-be name is \<open>sanitize\<close> of the name when the probe finds the
  destination free.
\<close>

theorem dry_run_changes_nothing:
  "snd (rename_file U h B f True w) = w \<and>
   rename_file U h (B\<lparr>perform_rename := pr, compute_hash := ch, get_file_size := gs,
      write_sidecar := ws\<rparr>) f True w = rename_file U h B f True w \<and>
   (\<not> is_system_file (name f) \<and> \<not> is_safe_filename U (name f) \<longrightarrow>
      (\<forall>safe. handle_collision h B (parent f) (name f) (sanitize U (name f)) w = Inr safe \<longrightarrow>
         fst (rename_file U h B f True w) =
           Inr (RenameResult_success f (path_join (parent f) safe)
                  (meta_json_path (path_join (parent f) safe)))) \<and>
      (\<forall>m. handle_collision h B (parent f) (name f) (sanitize U (name f)) w =
              Inl (Exception m) \<longrightarrow>
         fst (rename_file U h B f True w) = Inr (RenameResult_failure f m)) \<and>
      (\<forall>m. handle_collision h B (parent f) (name f) (sanitize U (name f)) w =
              Inl (BaseException m) \<longrightarrow>
         fst (rename_file U h B f True w) = Inl (BaseException m)) \<and>
      (file_exists B (path_join (parent f) (sanitize U (name f))) w = Inr False \<longrightarrow>
         handle_collision h B (parent f) (name f) (sanitize U (name f)) w =
           Inr (sanitize U (name f))))"
proof -
  have 1: "snd (rename_file U h B f True w) = w"
    by (simp add: rename_file_def rename_file_try_dry split: sum.splits exn.splits)
  have 2: "rename_file U h (B\<lparr>perform_rename := pr, compute_hash := ch, get_file_size := gs,
      write_sidecar := ws\<rparr>) f True w = rename_file U h B f True w"
    by (simp add: rename_file_def rename_file_try_dry handle_collision_frame)
  have 3: "fst (rename_file U h B f True w) =
           Inr (RenameResult_success f (path_join (parent f) safe)
                  (meta_json_path (path_join (parent f) safe)))"
    if "\<not> is_system_file (name f)" "\<not> is_safe_filename U (name f)"
       "handle_collision h B (parent f) (name f) (sanitize U (name f)) w = Inr safe" for safe
    using that by (simp add: rename_file_def rename_file_try_dry)
  have 4: "fst (rename_file U h B f True w) = Inr (RenameResult_failure f m)"
    if "\<not> is_system_file (name f)" "\<not> is_safe_filename U (name f)"
       "handle_collision h B (parent f) (name f) (sanitize U (name f)) w = Inl (Exception m)" for m
    using that by (simp add: rename_file_def rename_file_try_dry)
  have 5: "fst (rename_file U h B f True w) = Inl (BaseException m)"
    if "\<not> is_system_file (name f)" "\<not> is_safe_filename U (name f)"
       "handle_collision h B (parent f) (name f) (sanitize U (name f)) w = Inl (BaseException m)"
    for m
    using that by (simp add: rename_file_def rename_file_try_dry)
  have 6: "handle_collision h B (parent f) (name f) (sanitize U (name f)) w =
           Inr (sanitize U (name f))"
    if "file_exists B (path_join (parent f) (sanitize U (name f))) w = Inr False"
    using that by (simp add: handle_collision_def)
  show ?thesis using 1 2 3 4 5 6 by blast
qed

text \<open>
  The witness of C6: a dry run on the first file in the in-memory backend, and one in
  the backend whose probe is interrupted.
\<close>

theorem dry_run_changes_nothing_witness:
  "\<not> is_system_file (name my_file) \<and> \<not> is_safe_filename basic_unicode (name my_file) \<and>
   file_exists (mem_backend None) (path_join (parent my_file) (sanitize basic_unicode (name my_file)))
     [my_file] = Inr False \<and>
   rename_file basic_unicode (\<lambda>_. Inr []) (mem_backend None) my_file True [my_file] =
     (Inr (RenameResult_success my_file my_file_new (meta_json_path my_file_new)), [my_file]) \<and>
   handle_collision (\<lambda>_. Inr []) interrupted_backend (parent my_file) (name my_file)
     (sanitize basic_unicode (name my_file)) [my_file] =
     Inl (BaseException (py ''KeyboardInterrupt'')) \<and>
   rename_file basic_unicode (\<lambda>_. Inr []) interrupted_backend my_file True [my_file] =
     (Inl (BaseException (py ''KeyboardInterrupt'')), [my_file])"
proof -
  have 3: "\<not> is_system_file (name my_file)" by (simp add: my_file_fields not_system_My_File)
  have 4: "\<not> is_safe_filename basic_unicode (name my_file)" by (simp add: my_file_fields unsafe_My_File)
  have 5: "file_exists (mem_backend None)
     (path_join (parent my_file) (sanitize basic_unicode (name my_file))) [my_file] = Inr False"
    by code_simp
  have 6: "path_join (parent my_file) (sanitize basic_unicode (name my_file)) = my_file_new"
    by (simp add: my_file_fields sanitize_My_File path_join_def my_file_new_def)
  have 7: "handle_collision (\<lambda>_. Inr []) interrupted_backend (parent my_file) (name my_file)
     (sanitize basic_unicode (name my_file)) [my_file] =
     Inl (BaseException (py ''KeyboardInterrupt''))"
    by (simp add: handle_collision_def interrupted_backend_def)
  note t = dry_run_changes_nothing [of basic_unicode "\<lambda>_. Inr []" "mem_backend None" my_file "[my_file]"]
  note i = dry_run_changes_nothing [of basic_unicode "\<lambda>_. Inr []" interrupted_backend my_file "[my_file]"]
  have "fst (rename_file basic_unicode (\<lambda>_. Inr []) (mem_backend None) my_file True [my_file]) =
     Inr (RenameResult_success my_file my_file_new (meta_json_path my_file_new))"
    using t 3 4 5 6 by metis
  moreover have "snd (rename_file basic_unicode (\<lambda>_. Inr []) (mem_backend None) my_file True [my_file]) = [my_file]"
    using t by blast
  ultimately have a: "rename_file basic_unicode (\<lambda>_. Inr []) (mem_backend None) my_file True [my_file] =
     (Inr (RenameResult_success my_file my_file_new (meta_json_path my_file_new)), [my_file])"
    by (simp add: prod_eq_iff)
  have "fst (rename_file basic_unicode (\<lambda>_. Inr []) interrupted_backend my_file True [my_file]) =
     Inl (BaseException (py ''KeyboardInterrupt''))"
    using i 3 4 7 by blast
  moreover have "snd (rename_file basic_unicode (\<lambda>_. Inr []) interrupted_backend my_file True [my_file]) = [my_file]"
    using i by blast
  ultimately have b: "rename_file basic_unicode (\<lambda>_. Inr []) interrupted_backend my_file True [my_file] =
     (Inl (BaseException (py ''KeyboardInterrupt'')), [my_file])"
    by (simp add: prod_eq_iff)
  show ?thesis using 3 4 5 7 a b by blast
qed

text \<open>
  The counterexample of C6: the probe raises an \<open>Exception\<close>, and the dry run returns a
  failure, whatever the digest function.
\<close>

theorem dry_run_fails_when_probe_raises:
  "\<forall>h. \<not> is_system_file (name my_file) \<and> \<not> is_safe_filename basic_unicode (name my_file) \<and>
       rename_file basic_unicode h broken_backend my_file True [my_file] =
         (Inr (RenameResult_failure my_file (py ''rclone not found'')), [my_file])"
  by (simp add: my_file_fields not_system_My_File unsafe_My_File rename_file_def rename_file_try_dry
        handle_collision_def broken_backend_def mem_backend_def)




text \<open>
  Claim C8. The concrete cases, for every runtime that satisfies \<open>unicode_ok\<close>:
  \<^verbatim>\<open>sanitize("My File (2023).TXT") == "my-file-2023.txt"\<close>,
  \<^verbatim>\<open>sanitize("caf\\u00e9.jpg") == "cafe.jpg"\<close>,
  \<^verbatim>\<open>split_filename("archive.tar.gz") == ("archive", ".tar.gz")\<close>, and \<^verbatim>\<open>sanitize("CON.txt")\<close> is
  \<^verbatim>\<open>"file_"\<close> followed by \<^verbatim>\<open>"con"\<close> and the lower-case extension \<^verbatim>\<open>".txt"\<close>, which is also how
  \<open>split_filename\<close> cuts it.
\<close>

theorem sanitize_concrete_cases:
  assumes "unicode_ok U"
  shows "sanitize U (py ''My File (2023).TXT'') = py ''my-file-2023.txt'' \<and>
         sanitize U cafe_jpg = py ''cafe.jpg'' \<and>
         split_filename (py ''archive.tar.gz'') = (py ''archive'', py ''.tar.gz'') \<and>
         sanitize U (py ''CON.txt'') = py ''file_'' @ py ''con'' @ py ''.txt'' \<and>
         split_filename (sanitize U (py ''CON.txt'')) = (py ''file_'' @ py ''con'', py ''.txt'')"
proof -
  have 1: "sanitize U (py ''My File (2023).TXT'') = py ''my-file-2023.txt''"
    by (simp add: sanitize_plain [OF assms plain_my_file] sanitize_my_file)
  have 2: "sanitize U cafe_jpg = py ''cafe.jpg''"
    by (simp add: sanitize_plain [OF assms plain_cafe] sanitize_cafe)
  have 4: "sanitize U (py ''CON.txt'') = py ''file_con.txt''"
    by (simp add: sanitize_plain [OF assms plain_CON] sanitize_CON)
  have 5: "py ''file_con.txt'' = py ''file_'' @ py ''con'' @ py ''.txt''"
    and 6: "py ''file_con'' = py ''file_'' @ py ''con''" by (simp_all add: py_def)
  have 7: "split_filename (sanitize U (py ''CON.txt'')) = (py ''file_'' @ py ''con'', py ''.txt'')"
    unfolding 4 split_file_con 6 ..
  show ?thesis using 1 2 split_archive_tar_gz 4 [unfolded 5] 7 by blast
qed

text \<open>The witness of C8, with the runtime \<open>basic_unicode\<close>.\<close>

theorem sanitize_concrete_cases_witness:
  "unicode_ok basic_unicode \<and>
   sanitize basic_unicode (py ''My File (2023).TXT'') = py ''my-file-2023.txt'' \<and>
   sanitize basic_unicode cafe_jpg = py ''cafe.jpg'' \<and>
   sanitize basic_unicode (py ''CON.txt'') = py ''file_'' @ py ''con'' @ py ''.txt''"
  using sanitize_concrete_cases [OF basic_unicode_ok] basic_unicode_ok by blast



text \<open>
  Claim C10. \<open>is_remote_path\<close> holds of a string exactly when it is an ASCII letter, then
  word characters or hyphens, then a colon that is not followed by a slash or a
  backslash. With \<^verbatim>\<open>\w\<close> as it is on ASCII: \<^verbatim>\<open>"gdrive:folder"\<close> is remote,
  \<^verbatim>\<open>"C:\folder"\<close>, \<^verbatim>\<open>"/home/user"\<close> and \<^verbatim>\<open>"\\server\share"\<close> are local, and \<^verbatim>\<open>"C:"\<close> is remote.
\<close>

theorem is_remote_path_pattern:
  "(is_remote_path W p \<longleftrightarrow>
      (\<exists>c body rest. p = c # body @ 58 # rest \<and> ascii_letter c \<and>
         list_all (\<lambda>x. W x \<or> x = HYPHEN) body \<and>
         (rest = [] \<or> (hd rest \<noteq> 47 \<and> hd rest \<noteq> 92)))) \<and>
   (word_ok W \<longrightarrow>
      is_remote_path W (py ''gdrive:folder'') \<and>
      \<not> is_remote_path W (py ''C:'' @ [92] @ py ''folder'') \<and>
      \<not> is_remote_path W (py ''/home/user'') \<and>
      \<not> is_remote_path W ([92, 92] @ py ''server'' @ [92] @ py ''share'') \<and>
      is_remote_path W (py ''C:''))"
proof -
  have ns: "not_slash_next rest \<longleftrightarrow> (rest = [] \<or> (hd rest \<noteq> 47 \<and> hd rest \<noteq> 92))" for rest
    by (cases rest) (auto simp: not_slash_next_def)
  have 1: "is_remote_path W p \<longleftrightarrow>
      (\<exists>c body rest. p = c # body @ 58 # rest \<and> ascii_letter c \<and>
         list_all (\<lambda>x. W x \<or> x = HYPHEN) body \<and>
         (rest = [] \<or> (hd rest \<noteq> 47 \<and> hd rest \<noteq> 92)))"
    by (cases p) (auto simp: is_remote_path_def remote_tail_iff ns)
  have 2: "is_remote_path W (py ''gdrive:folder'')" if "word_ok W"
    using word_ok_ascii [OF that]
    by (simp add: is_remote_path_def py_def ascii_letter_def ascii_word_def not_slash_next_def)
  have 3: "\<not> is_remote_path W (py ''C:'' @ [92] @ py ''folder'')" if "word_ok W"
    using word_ok_ascii [OF that]
    by (simp add: is_remote_path_def py_def ascii_letter_def ascii_word_def not_slash_next_def
          HYPHEN_def)
  have 4: "\<not> is_remote_path W (py ''/home/user'')"
    by (simp add: is_remote_path_def py_def ascii_letter_def)
  have 5: "\<not> is_remote_path W ([92, 92] @ py ''server'' @ [92] @ py ''share'')"
    by (simp add: is_remote_path_def py_def ascii_letter_def)
  have 6: "is_remote_path W (py ''C:'')"
    by (simp add: is_remote_path_def py_def ascii_letter_def not_slash_next_def)
  show ?thesis using 1 2 3 4 5 6 by blast
qed

text \<open>The witness of C10, with \<^verbatim>\<open>\w\<close> the ASCII word characters.\<close>

theorem is_remote_path_pattern_witness:
  "word_ok ascii_word \<and> is_remote_path ascii_word (py ''gdrive:folder'') \<and>
   \<not> is_remote_path ascii_word (py ''C:'' @ [92] @ py ''folder'') \<and>
   is_remote_path ascii_word (py ''C:'')"
proof -
  have w: "word_ok ascii_word" by (simp add: word_ok_def)
  show ?thesis using is_remote_path_pattern [of ascii_word "[]"] w by blast
qed

end
